theory Spec2Isabelle
  imports Complex_Main
begin

section \<open>JavaScript strings\<close>

text \<open>
  A JavaScript string is a sequence of UTF-16 code units. It is modelled as a HOL
  \<open>string\<close>, each \<open>char\<close> standing for one code unit in the range U+0000..U+00FF, so
  \<open>length\<close> is the source's \<open>.length\<close> on such strings.
\<close>

abbreviation DQUOTE :: char where "DQUOTE \<equiv> CHR 0x22"
abbreviation BACKSLASH :: char where "BACKSLASH \<equiv> CHR 0x5C"
abbreviation LF :: char where "LF \<equiv> CHR 0x0A"
abbreviation CR :: char where "CR \<equiv> CHR 0x0D"

text \<open>
  \<open>String.prototype.trim\<close> removes WhiteSpace and LineTerminator code units from both
  ends; in the modelled range these are TAB, LF, VT, FF, CR, SPACE and NBSP.
\<close>

definition isWhiteSpace :: "char \<Rightarrow> bool" where
  "isWhiteSpace c =
     (c \<in> set [CHR 0x09, CHR 0x0A, CHR 0x0B, CHR 0x0C, CHR 0x0D, CHR 0x20, CHR 0xA0])"

definition trim :: "string \<Rightarrow> string" where
  "trim s = rev (dropWhile isWhiteSpace (rev (dropWhile isWhiteSpace s)))"

text \<open>
  \<open>String.prototype.toLowerCase\<close>: in the modelled range the letters with a lower-case
  form are A..Z and U+00C0..U+00DE without the multiplication sign U+00D7.
\<close>

definition toLowerChar :: "char \<Rightarrow> char" where
  "toLowerChar c =
     (let n = (of_char c :: nat)
      in if (65 \<le> n \<and> n \<le> 90) \<or> (192 \<le> n \<and> n \<le> 222 \<and> n \<noteq> 215)
         then char_of (n + 32) else c)"

definition toLowerCase :: "string \<Rightarrow> string" where
  "toLowerCase s = map toLowerChar s"

definition startsWith :: "string \<Rightarrow> string \<Rightarrow> bool" where
  "startsWith s p = (take (length p) s = p)"

text \<open>\<open>String.prototype.includes\<close>: \<open>p\<close> occurs in \<open>s\<close> at some position.\<close>

fun includes_str :: "string \<Rightarrow> string \<Rightarrow> bool" where
  "includes_str [] p = (p = [])"
| "includes_str (c # s) p = (startsWith (c # s) p \<or> includes_str s p)"

text \<open>\<open>Array.prototype.join\<close> on an array of strings.\<close>

fun join :: "string \<Rightarrow> string list \<Rightarrow> string" where
  "join sep [] = []"
| "join sep [x] = x"
| "join sep (x # y # ys) = x @ sep @ join sep (y # ys)"

text \<open>
  \<open>text.split\<close> at the regular expression "an optional CR, then LF": the input is cut
  at every LF, and a CR right before the LF belongs to the separator. \<open>cur\<close> is the
  piece being read.
\<close>

fun split_loop :: "string \<Rightarrow> string \<Rightarrow> string list" where
  "split_loop [] cur = [cur]"
| "split_loop (c # rest) cur =
     (if c = LF then cur # split_loop rest []
      else if c = CR then
        (case rest of
           d # rest' \<Rightarrow> if d = LF then cur # split_loop rest' [] else split_loop rest (cur @ [c])
         | [] \<Rightarrow> split_loop rest (cur @ [c]))
      else split_loop rest (cur @ [c]))"

definition splitLines :: "string \<Rightarrow> string list" where
  "splitLines s = split_loop s []"

text \<open>
  \<open>s.replace(/^"|"$/g, '')\<close>: one double quote is removed at the start and one at the
  end (the one-character string of a single quote becomes empty).
\<close>

definition stripEdgeQuotes :: "string \<Rightarrow> string" where
  "stripEdgeQuotes s =
     (let s1 = (case s of c # cs \<Rightarrow> if c = DQUOTE then cs else s | [] \<Rightarrow> s)
      in if s1 \<noteq> [] \<and> last s1 = DQUOTE then butlast s1 else s1)"

text \<open>
  \<open>s.replace\<close> of the pattern "backslash, double quote" by a double quote, everywhere.
\<close>

fun unescapeQuotes :: "string \<Rightarrow> string" where
  "unescapeQuotes [] = []"
| "unescapeQuotes [c] = [c]"
| "unescapeQuotes (c # d # rest) =
     (if c = BACKSLASH \<and> d = DQUOTE then DQUOTE # unescapeQuotes rest
      else c # unescapeQuotes (d # rest))"

text \<open>\<open>s.replace\<close> of every backslash by the empty string.\<close>

definition removeBackslashes :: "string \<Rightarrow> string" where
  "removeBackslashes s = filter (\<lambda>c. c \<noteq> BACKSLASH) s"

text \<open>\<open>cell.replace(/"/g, '""')\<close>: every double quote is doubled.\<close>

fun doubleQuotes :: "string \<Rightarrow> string" where
  "doubleQuotes [] = []"
| "doubleQuotes (c # cs) = (if c = DQUOTE then [DQUOTE, DQUOTE] else [c]) @ doubleQuotes cs"

text \<open>Decimal digits of a non-negative integer.\<close>

definition digitChar :: "nat \<Rightarrow> char" where
  "digitChar d = char_of (48 + d)"

function showDigits :: "int \<Rightarrow> string" where
  "showDigits n =
     (if n < 10 then [digitChar (nat n)]
      else showDigits (n div 10) @ [digitChar (nat (n mod 10))])"
  by pat_completeness auto
termination
  by (relation "measure nat") auto


section \<open>Numbers\<close>

text \<open>
  A JavaScript number that \<open>JSON.parse\<close> can return: a finite double, given by the
  rational it denotes, or an infinity (the value of a literal too large for a double).
  \<open>-0\<close> is not told apart from \<open>0\<close>: no operation of this program distinguishes them.
\<close>

datatype number = Finite rat | PosInfinity | NegInfinity

fun negate :: "number \<Rightarrow> number" where
  "negate (Finite q) = Finite (- q)"
| "negate PosInfinity = NegInfinity"
| "negate NegInfinity = PosInfinity"

definition pow2 :: "int \<Rightarrow> rat" where
  "pow2 e = (if 0 \<le> e then 2 ^ nat e else 1 / 2 ^ nat (- e))"

definition pow10 :: "int \<Rightarrow> rat" where
  "pow10 e = (if 0 \<le> e then 10 ^ nat e else 1 / 10 ^ nat (- e))"

text \<open>The number of binary and of decimal digits of a positive integer.\<close>

function bitLength :: "int \<Rightarrow> int" where
  "bitLength n = (if n \<le> 0 then 0 else 1 + bitLength (n div 2))"
  by pat_completeness auto
termination
  by (relation "measure nat") auto

function decimalLength :: "int \<Rightarrow> int" where
  "decimalLength n = (if n \<le> 0 then 0 else 1 + decimalLength (n div 10))"
  by pat_completeness auto
termination
  by (relation "measure nat") auto

text \<open>
  For a positive rational \<open>q\<close>: the \<open>e\<close> with \<open>2^e \<le> q < 2^(e+1)\<close>, and the \<open>n\<close> with
  \<open>10^(n-1) \<le> q < 10^n\<close>.
\<close>

definition binaryExponent :: "rat \<Rightarrow> int" where
  "binaryExponent q =
     (let (a, b) = quotient_of q;
          e = bitLength a - bitLength b
      in if pow2 e \<le> q then e else e - 1)"

definition decimalExponent :: "rat \<Rightarrow> int" where
  "decimalExponent q =
     (let (a, b) = quotient_of q;
          n = decimalLength a - decimalLength b
      in if pow10 n \<le> q then n + 1 else n)"

text \<open>
  The double nearest to a real, ties to the even significand (IEEE 754 round to nearest
  even, which \<open>JSON.parse\<close> applies to the value of a number literal): 53 significant bits,
  the least binary exponent \<open>-1022\<close>, and an infinity when the result reaches \<open>2^1024\<close>.
\<close>

definition roundHalfEven :: "rat \<Rightarrow> int" where
  "roundHalfEven r =
     (let f = \<lfloor>r\<rfloor>; d = r - of_int f
      in if d < 1 / 2 then f
         else if 1 / 2 < d then f + 1
         else if even f then f else f + 1)"

definition roundPositive :: "rat \<Rightarrow> number" where
  "roundPositive q =
     (let e = max (binaryExponent q) (- 1022);
          quantum = pow2 (e - 52);
          r = of_int (roundHalfEven (q / quantum)) * quantum
      in if 1024 \<le> binaryExponent r then PosInfinity else Finite r)"

definition toDouble :: "rat \<Rightarrow> number" where
  "toDouble q =
     (if q = 0 then Finite 0
      else if q < 0 then negate (roundPositive (- q))
      else roundPositive q)"

text \<open>
  \<open>Number::toString\<close> of ECMAScript for a positive double \<open>x\<close>: the decimal \<open>s * 10^e\<close>
  with the fewest digits \<open>k\<close> of \<open>s\<close> that denotes \<open>x\<close> (the double nearest to it is \<open>x\<close>), and
  among several such \<open>s\<close> the one nearest to \<open>x\<close>. With \<open>10^(n-1) \<le> x < 10^n\<close>, the two
  decimals of \<open>k\<close> digits next to \<open>x\<close> are tried for \<open>k = 1, 2, ...\<close>; the search ends at the
  latest with the exact decimal expansion of \<open>x\<close>, which has at most 1074 fractional
  digits.
\<close>

function stripZeros :: "int \<Rightarrow> int \<Rightarrow> int \<times> int" where
  "stripZeros s e = (if 0 < s \<and> s mod 10 = 0 then stripZeros (s div 10) (e + 1) else (s, e))"
  by pat_completeness auto
termination
  by (relation "measure (\<lambda>(s, e). nat s)") auto

definition candidate :: "rat \<Rightarrow> int \<Rightarrow> int \<Rightarrow> (int \<times> int) option" where
  "candidate x n k =
     (let e = n - k;
          t = x / pow10 e;
          lo = \<lfloor>t\<rfloor>;
          hi = lo + 1;
          loOk = (toDouble (of_int lo * pow10 e) = Finite x);
          hiOk = (toDouble (of_int hi * pow10 e) = Finite x);
          dLo = t - of_int lo;
          dHi = of_int hi - t
      in if loOk \<and> (\<not> hiOk \<or> dLo < dHi \<or> (dLo = dHi \<and> even lo))
         then Some (stripZeros lo e)
         else if hiOk then Some (stripZeros hi e)
         else None)"

fun shortest :: "nat \<Rightarrow> rat \<Rightarrow> int \<Rightarrow> int \<Rightarrow> int \<times> int" where
  "shortest 0 x n k = stripZeros \<lfloor>x / pow10 (n - k)\<rfloor> (n - k)"
| "shortest (Suc fuel) x n k =
     (case candidate x n k of
        Some d \<Rightarrow> d
      | None \<Rightarrow> shortest fuel x n (k + 1))"

definition shortestDecimal :: "rat \<Rightarrow> int \<times> int" where
  "shortestDecimal x = (let n = decimalExponent x in shortest (nat (1074 + n)) x n 1)"

text \<open>
  The notation of \<open>Number::toString\<close> for the decimal \<open>s * 10^e\<close>, where \<open>s\<close> has \<open>k\<close> digits and
  \<open>n = e + k\<close>: an integer up to \<open>10^21\<close> in full, a fraction with the point inside or
  after up to six zeros, and exponent notation otherwise.
\<close>

definition formatDecimal :: "int \<times> int \<Rightarrow> string" where
  "formatDecimal d =
     (let ds = showDigits (fst d);
          k = int (length ds);
          n = snd d + k
      in if k \<le> n \<and> n \<le> 21 then ds @ replicate (nat (n - k)) (CHR ''0'')
         else if 0 < n \<and> n \<le> 21 then take (nat n) ds @ ''.'' @ drop (nat n) ds
         else if - 6 < n \<and> n \<le> 0 then ''0.'' @ replicate (nat (- n)) (CHR ''0'') @ ds
         else
           (if k = 1 then ds else [hd ds] @ ''.'' @ tl ds)
           @ ''e'' @ (if 0 \<le> n - 1 then ''+'' else ''-'') @ showDigits (abs (n - 1)))"

definition Number_toString :: "number \<Rightarrow> string" where
  "Number_toString x =
     (case x of
        Finite q \<Rightarrow>
          if q = 0 then ''0''
          else if q < 0 then ''-'' @ formatDecimal (shortestDecimal (- q))
          else formatDecimal (shortestDecimal q)
      | PosInfinity \<Rightarrow> ''Infinity''
      | NegInfinity \<Rightarrow> ''-Infinity'')"

text \<open>The rationals that are doubles.\<close>

definition isDouble :: "rat \<Rightarrow> bool" where
  "isDouble q = (toDouble q = Finite q)"
section \<open>JSON values, \<open>JSON.stringify\<close> and \<open>JSON.parse\<close>\<close>

text \<open>
  The values \<open>JSON.parse\<close> returns. An object is the list of its own properties with
  distinct keys; equality of objects up to key order is equality of the maps these
  lists denote.
\<close>

datatype json =
  JNull | JBool bool | JNum number | JStr string | JArr "json list" | JObj "(string \<times> json) list"

text \<open>
  \<open>JSON.parse\<close> throws a \<open>SyntaxError\<close> on ill-formed text. \<open>Unmodelled\<close> is not a result
  of the program: it marks text that leaves the modelled fragment (a four-digit escape
  beyond U+00FF, or nesting deeper than the parser's fuel), about which the model says
  nothing.
\<close>

datatype json_failure = SyntaxError | Unmodelled

subsection \<open>\<open>JSON.stringify\<close>\<close>

definition hexChar :: "nat \<Rightarrow> char" where
  "hexChar d = (if d < 10 then char_of (48 + d) else char_of (87 + d))"

text \<open>ECMAScript's QuoteJSONString, one code unit at a time.\<close>

definition escapeChar :: "char \<Rightarrow> string" where
  "escapeChar c =
     (let n = (of_char c :: nat)
      in if c = DQUOTE then [BACKSLASH, DQUOTE]
         else if c = BACKSLASH then [BACKSLASH, BACKSLASH]
         else if n = 8 then [BACKSLASH, CHR ''b'']
         else if n = 12 then [BACKSLASH, CHR ''f'']
         else if n = 10 then [BACKSLASH, CHR ''n'']
         else if n = 13 then [BACKSLASH, CHR ''r'']
         else if n = 9 then [BACKSLASH, CHR ''t'']
         else if n < 32 then
           [BACKSLASH, CHR ''u'', CHR ''0'', CHR ''0'', hexChar (n div 16), hexChar (n mod 16)]
         else [c])"

definition quoteJSON :: "string \<Rightarrow> string" where
  "quoteJSON s = DQUOTE # concat (map escapeChar s) @ [DQUOTE]"

fun JSON_stringify :: "json \<Rightarrow> string" where
  "JSON_stringify JNull = ''null''"
| "JSON_stringify (JBool b) = (if b then ''true'' else ''false'')"
| "JSON_stringify (JNum x) = (case x of Finite q \<Rightarrow> Number_toString x | _ \<Rightarrow> ''null'')"
| "JSON_stringify (JStr s) = quoteJSON s"
| "JSON_stringify (JArr xs) = ''['' @ join '','' (map JSON_stringify xs) @ '']''"
| "JSON_stringify (JObj kvs) =
     ''{'' @ join '','' (map (\<lambda>kv. quoteJSON (fst kv) @ '':'' @ JSON_stringify (snd kv)) kvs)
       @ ''}''"

subsection \<open>\<open>JSON.parse\<close>\<close>

definition isJsonWs :: "char \<Rightarrow> bool" where
  "isJsonWs c = (c \<in> set [CHR 0x20, CHR 0x09, CHR 0x0A, CHR 0x0D])"

definition skipWs :: "string \<Rightarrow> string" where
  "skipWs s = dropWhile isJsonWs s"

definition isDigit :: "char \<Rightarrow> bool" where
  "isDigit c = (48 \<le> (of_char c :: nat) \<and> (of_char c :: nat) \<le> 57)"

definition digitVal :: "char \<Rightarrow> nat" where
  "digitVal c = of_char c - 48"

definition intOfDigits :: "string \<Rightarrow> int" where
  "intOfDigits ds = foldl (\<lambda>n c. 10 * n + int (digitVal c)) 0 ds"

definition hexVal :: "char \<Rightarrow> nat option" where
  "hexVal c =
     (let n = (of_char c :: nat)
      in if 48 \<le> n \<and> n \<le> 57 then Some (n - 48)
         else if 97 \<le> n \<and> n \<le> 102 then Some (n - 87)
         else if 65 \<le> n \<and> n \<le> 70 then Some (n - 55)
         else None)"

definition unescapeChar :: "char \<Rightarrow> char option" where
  "unescapeChar e =
     (if e = DQUOTE then Some DQUOTE
      else if e = BACKSLASH then Some BACKSLASH
      else if e = CHR ''/'' then Some (CHR ''/'')
      else if e = CHR ''b'' then Some (CHR 0x08)
      else if e = CHR ''f'' then Some (CHR 0x0C)
      else if e = CHR ''n'' then Some LF
      else if e = CHR ''r'' then Some CR
      else if e = CHR ''t'' then Some (CHR 0x09)
      else None)"

text \<open>
  The characters of a string literal after its opening quote, up to the closing quote;
  the result is the decoded string and the rest of the input.
\<close>

fun parseChars :: "string \<Rightarrow> string \<Rightarrow> json_failure + (string \<times> string)" where
  "parseChars [] acc = Inl SyntaxError"
| "parseChars (c # cs) acc =
     (if c = DQUOTE then Inr (acc, cs)
      else if c = BACKSLASH then
        (case cs of
           [] \<Rightarrow> Inl SyntaxError
         | e # cs' \<Rightarrow>
             if e = CHR ''u'' then
               (case cs' of
                  h1 # h2 # h3 # h4 # cs'' \<Rightarrow>
                    (case (hexVal h1, hexVal h2, hexVal h3, hexVal h4) of
                       (Some a, Some b, Some c', Some d) \<Rightarrow>
                         if a = 0 \<and> b = 0 then parseChars cs'' (acc @ [char_of (16 * c' + d)])
                         else Inl Unmodelled
                     | _ \<Rightarrow> Inl SyntaxError)
                | _ \<Rightarrow> Inl SyntaxError)
             else
               (case unescapeChar e of
                  Some ch \<Rightarrow> parseChars cs' (acc @ [ch])
                | None \<Rightarrow> Inl SyntaxError))
      else if (of_char c :: nat) < 32 then Inl SyntaxError
      else parseChars cs (acc @ [c]))"

text \<open>
  A number token: an optional minus sign, then \<open>0\<close> or a digit sequence without a
  leading zero, then an optional fraction (a point and at least one digit) and an
  optional exponent (\<open>e\<close> or \<open>E\<close>, an optional sign and at least one digit). Its value is
  the double nearest to the decimal it denotes.
\<close>

definition parseFraction :: "string \<Rightarrow> json_failure + (string \<times> string)" where
  "parseFraction s =
     (case s of
        [] \<Rightarrow> Inr ([], [])
      | c # r \<Rightarrow>
          if c = CHR ''.'' then
            (let ds = takeWhile isDigit r
             in if ds = [] then Inl SyntaxError else Inr (ds, drop (length ds) r))
          else Inr ([], s))"

definition parseExponent :: "string \<Rightarrow> json_failure + (int \<times> string)" where
  "parseExponent s =
     (case s of
        [] \<Rightarrow> Inr (0, [])
      | c # r \<Rightarrow>
          if c = CHR ''e'' \<or> c = CHR ''E'' then
            (let neg = (r \<noteq> [] \<and> hd r = CHR ''-'');
                 r1 = (if r \<noteq> [] \<and> (hd r = CHR ''-'' \<or> hd r = CHR ''+'') then tl r else r);
                 ds = takeWhile isDigit r1
             in if ds = [] then Inl SyntaxError
                else Inr (if neg then - intOfDigits ds else intOfDigits ds,
                          drop (length ds) r1))
          else Inr (0, s))"

definition parseNumber :: "string \<Rightarrow> json_failure + (number \<times> string)" where
  "parseNumber s =
     (let neg = (s \<noteq> [] \<and> hd s = CHR ''-'');
          s1 = (if neg then tl s else s)
      in if s1 = [] \<or> \<not> isDigit (hd s1) then Inl SyntaxError
         else
           let ds = (if hd s1 = CHR ''0'' then [hd s1] else takeWhile isDigit s1)
           in case parseFraction (drop (length ds) s1) of
                Inl e \<Rightarrow> Inl e
              | Inr (fs, s2) \<Rightarrow>
                  (case parseExponent s2 of
                     Inl e \<Rightarrow> Inl e
                   | Inr (exponent, rest) \<Rightarrow>
                       let v = toDouble (of_int (intOfDigits (ds @ fs))
                                         * pow10 (exponent - int (length fs)))
                       in Inr (if neg then negate v else v, rest)))"

text \<open>
  Defining a property of an object under construction: a repeated key keeps its place
  and takes the later value.
\<close>

definition objSet :: "(string \<times> json) list \<Rightarrow> string \<Rightarrow> json \<Rightarrow> (string \<times> json) list" where
  "objSet kvs k v =
     (if k \<in> set (map fst kvs) then map (\<lambda>kv. if fst kv = k then (k, v) else kv) kvs
      else kvs @ [(k, v)])"

text \<open>
  Recursive descent over the JSON grammar. The first argument is fuel, one unit per
  nested call; \<open>JSON_parse\<close> supplies twice the length of the text plus two.
\<close>

fun parseValue :: "nat \<Rightarrow> string \<Rightarrow> json_failure + (json \<times> string)"
and parseElements :: "nat \<Rightarrow> string \<Rightarrow> json list \<Rightarrow> json_failure + (json \<times> string)"
and parseMembers ::
  "nat \<Rightarrow> string \<Rightarrow> (string \<times> json) list \<Rightarrow> json_failure + (json \<times> string)" where
  "parseValue 0 s = Inl Unmodelled"
| "parseValue (Suc n) s =
     (case skipWs s of
        [] \<Rightarrow> Inl SyntaxError
      | c # r \<Rightarrow>
          if c = CHR ''{'' then
            (case skipWs r of
               [] \<Rightarrow> Inl SyntaxError
             | c' # r' \<Rightarrow> if c' = CHR ''}'' then Inr (JObj [], r') else parseMembers n r [])
          else if c = CHR ''['' then
            (case skipWs r of
               [] \<Rightarrow> Inl SyntaxError
             | c' # r' \<Rightarrow> if c' = CHR '']'' then Inr (JArr [], r') else parseElements n r [])
          else if c = DQUOTE then
            (case parseChars r [] of Inl e \<Rightarrow> Inl e | Inr (str, r') \<Rightarrow> Inr (JStr str, r'))
          else if c = CHR ''-'' \<or> isDigit c then
            (case parseNumber (c # r) of Inl e \<Rightarrow> Inl e | Inr (i, r') \<Rightarrow> Inr (JNum i, r'))
          else if startsWith (c # r) ''true'' then Inr (JBool True, drop 4 (c # r))
          else if startsWith (c # r) ''false'' then Inr (JBool False, drop 5 (c # r))
          else if startsWith (c # r) ''null'' then Inr (JNull, drop 4 (c # r))
          else Inl SyntaxError)"
| "parseElements 0 s acc = Inl Unmodelled"
| "parseElements (Suc n) s acc =
     (case parseValue n s of
        Inl e \<Rightarrow> Inl e
      | Inr (v, r) \<Rightarrow>
          (case skipWs r of
             [] \<Rightarrow> Inl SyntaxError
           | c # r' \<Rightarrow>
               if c = CHR '','' then parseElements n r' (acc @ [v])
               else if c = CHR '']'' then Inr (JArr (acc @ [v]), r')
               else Inl SyntaxError))"
| "parseMembers 0 s acc = Inl Unmodelled"
| "parseMembers (Suc n) s acc =
     (case skipWs s of
        [] \<Rightarrow> Inl SyntaxError
      | c # r \<Rightarrow>
          if c \<noteq> DQUOTE then Inl SyntaxError
          else
            (case parseChars r [] of
               Inl e \<Rightarrow> Inl e
             | Inr (k, r1) \<Rightarrow>
                 (case skipWs r1 of
                    [] \<Rightarrow> Inl SyntaxError
                  | c1 # r2 \<Rightarrow>
                      if c1 \<noteq> CHR '':'' then Inl SyntaxError
                      else
                        (case parseValue n r2 of
                           Inl e \<Rightarrow> Inl e
                         | Inr (v, r3) \<Rightarrow>
                             (case skipWs r3 of
                                [] \<Rightarrow> Inl SyntaxError
                              | c3 # r4 \<Rightarrow>
                                  if c3 = CHR '','' then parseMembers n r4 (objSet acc k v)
                                  else if c3 = CHR ''}'' then Inr (JObj (objSet acc k v), r4)
                                  else Inl SyntaxError)))))"

definition JSON_parse :: "string \<Rightarrow> json_failure + json" where
  "JSON_parse s =
     (case parseValue (2 * length s + 2) s of
        Inl e \<Rightarrow> Inl e
      | Inr (v, r) \<Rightarrow> if skipWs r = [] then Inr v else Inl SyntaxError)"

subsection \<open>Properties of a value\<close>

text \<open>
  \<open>value[key]\<close> for the property names this program reads (\<open>year\<close>, \<open>status\<close>,
  \<open>attributes\<close>, \<open>vectorStoreId\<close>): only an object can have them; \<open>None\<close> is
  \<open>undefined\<close>.
\<close>

fun getProp :: "json \<Rightarrow> string \<Rightarrow> json option" where
  "getProp (JObj kvs) key = map_of kvs key"
| "getProp _ key = None"

text \<open>
  \<open>Object.keys\<close>: the keys of an object, the indices of an array or of a string, nothing
  for a number or a boolean, and a \<open>TypeError\<close> (here \<open>None\<close>) for \<open>null\<close>.
\<close>

fun Object_keys :: "json \<Rightarrow> string list option" where
  "Object_keys JNull = None"
| "Object_keys (JBool b) = Some []"
| "Object_keys (JNum n) = Some []"
| "Object_keys (JStr s) = Some (map (\<lambda>i. showDigits (int i)) [0..<length s])"
| "Object_keys (JArr xs) = Some (map (\<lambda>i. showDigits (int i)) [0..<length xs])"
| "Object_keys (JObj kvs) = Some (map fst kvs)"

section \<open>Metadata validation\<close>

text \<open>
  What \<open>validateMetadata\<close> and the row loop throw for one row. The first three are the
  \<open>Error\<close>s of \<open>validateMetadata\<close> (the spec's SchemaViolation): "is missing required
  fields: ...", "year must be a number", "status must be one of: ...".
  \<open>InOperatorTypeError\<close> is the \<open>TypeError\<close> of \<open>field in attributes\<close> on a value that is
  not an object; \<open>JSONSyntaxError\<close> is the \<open>SyntaxError\<close> of \<open>JSON.parse\<close>.
\<close>

datatype row_error =
  MissingFields "string list" | YearNotNumber | InvalidStatus
| InOperatorTypeError | JSONSyntaxError

definition requiredFields :: "string list" where
  "requiredFields =
     [''title'', ''documentCategory'', ''documentType'', ''year'', ''version'',
      ''referenceCode'', ''status'', ''jurisdiction'']"

definition validStatuses :: "string list" where
  "validStatuses = [''active'', ''draft'', ''superseded'', ''withdrawn'', ''legacy'']"

text \<open>
  \<open>field in attributes\<close> for a required field, on an object or an array (no required
  field names a property that objects or arrays inherit, nor an array index).
\<close>

fun hasField :: "json \<Rightarrow> string \<Rightarrow> bool" where
  "hasField (JObj kvs) field = (field \<in> set (map fst kvs))"
| "hasField _ field = False"

fun isObject :: "json \<Rightarrow> bool" where
  "isObject (JObj kvs) = True"
| "isObject (JArr xs) = True"
| "isObject _ = False"

text \<open>\<open>typeof v === 'number'\<close> and \<open>validStatuses.includes(v)\<close> on a property value.\<close>

fun isNumber :: "json option \<Rightarrow> bool" where
  "isNumber (Some (JNum n)) = True"
| "isNumber _ = False"

fun isValidStatus :: "json option \<Rightarrow> bool" where
  "isValidStatus (Some (JStr s)) = (s \<in> set validStatuses)"
| "isValidStatus _ = False"

definition validateMetadata :: "json \<Rightarrow> string \<Rightarrow> row_error + unit" where
  "validateMetadata attributes fileName =
     (if \<not> isObject attributes then Inl InOperatorTypeError
      else
        let missingFields = filter (\<lambda>field. \<not> hasField attributes field) requiredFields
        in if length missingFields > 0 then Inl (MissingFields missingFields)
           else if \<not> isNumber (getProp attributes ''year'') then Inl YearNotNumber
           else if \<not> isValidStatus (getProp attributes ''status'') then Inl InvalidStatus
           else Inr ())"

section \<open>Dates\<close>

text \<open>
  \<open>new Date(ms).toISOString()\<close> for an integral number of milliseconds since the epoch.
  A time value beyond \<open>8.64 * 10^15\<close> ms in either direction is an invalid date, and
  \<open>toISOString\<close> throws a \<open>RangeError\<close> on it. The calendar date is computed from the day
  number in the proleptic Gregorian calendar; years outside \<open>0..9999\<close> are written with a
  sign and six digits.
\<close>

datatype range_error = RangeError

definition zeroPad :: "nat \<Rightarrow> int \<Rightarrow> string" where
  "zeroPad w n = (let s = showDigits n in replicate (w - length s) (CHR ''0'') @ s)"

definition civilFromDays :: "int \<Rightarrow> int \<times> int \<times> int" where
  "civilFromDays days =
     (let z = days + 719468;
          era = z div 146097;
          doe = z mod 146097;
          yoe = (doe - doe div 1460 + doe div 36524 - doe div 146096) div 365;
          doy = doe - (365 * yoe + yoe div 4 - yoe div 100);
          mp = (5 * doy + 2) div 153;
          d = doy - (153 * mp + 2) div 5 + 1;
          m = (if mp < 10 then mp + 3 else mp - 9);
          y = yoe + era * 400 + (if m \<le> 2 then 1 else 0)
      in (y, m, d))"

definition toISOString :: "int \<Rightarrow> range_error + string" where
  "toISOString ms =
     (if ms < - 8640000000000000 \<or> 8640000000000000 < ms then Inl RangeError
      else
        let (y, m, d) = civilFromDays (ms div 86400000);
            t = ms mod 86400000;
            year = (if 0 \<le> y \<and> y \<le> 9999 then zeroPad 4 y
                    else (if y < 0 then ''-'' else ''+'') @ zeroPad 6 (abs y))
        in Inr (year @ ''-'' @ zeroPad 2 m @ ''-'' @ zeroPad 2 d @ ''T''
                @ zeroPad 2 (t div 3600000) @ '':'' @ zeroPad 2 (t div 60000 mod 60) @ '':''
                @ zeroPad 2 (t div 1000 mod 60) @ ''.'' @ zeroPad 3 (t mod 1000) @ ''Z''))"

section \<open>File records and CSV export\<close>

text \<open>
  \<open>interface File\<close> of \<open>src/app/files/page.tsx\<close>. \<open>bytes\<close> and \<open>created_at\<close> (Unix
  seconds) are integers.
\<close>

record File =
  id' :: string
  name :: string
  attributes :: json
  vectorStoreId :: string
  object :: string
  bytes :: int
  created_at :: int
  filename :: string
  purpose :: string

text \<open>
  The cell encoding of both CSV writers (\<open>handleExportFiles\<close>,
  \<open>handleDownloadTemplate\<close>): the template literal
  \<^verbatim>\<open>`"${String(cell).replace(/"/g, '""')}"`\<close>.
\<close>

definition csvCell :: "string \<Rightarrow> string" where
  "csvCell cell = DQUOTE # doubleQuotes cell @ [DQUOTE]"

text \<open>
  \<open>handleExportFiles\<close>. \<open>exportRow\<close> is the array \<open>row\<close> built for one file (with
  \<open>file.filename || file.name\<close> first), \<open>exportRows\<close> the \<open>forEach\<close> that pushes the rows
  onto \<open>csvRows\<close>, \<open>csvContent\<close> the conversion to text. The result is the text handed to
  the \<open>Blob\<close>; an exception of \<open>toISOString\<close> leaves the handler before any text exists.
\<close>

definition exportHeaders :: "string list" where
  "exportHeaders =
     [''File Name'', ''File ID'', ''Size (bytes)'', ''Created At'', ''Purpose'',
      ''Vector Store ID'', ''Attributes'']"

definition exportRow :: "File \<Rightarrow> range_error + string list" where
  "exportRow file =
     (case toISOString (created_at file * 1000) of
        Inl e \<Rightarrow> Inl e
      | Inr isoDate \<Rightarrow>
          Inr [if filename file \<noteq> [] then filename file else name file,
               id' file,
               Number_toString (Finite (of_int (bytes file))),
               isoDate,
               purpose file,
               vectorStoreId file,
               JSON_stringify (File.attributes file)])"

fun exportRows :: "File list \<Rightarrow> string list list \<Rightarrow> range_error + string list list" where
  "exportRows [] csvRows = Inr csvRows"
| "exportRows (file # rest) csvRows =
     (case exportRow file of
        Inl e \<Rightarrow> Inl e
      | Inr row \<Rightarrow> exportRows rest (csvRows @ [row]))"

definition csvContent :: "string list list \<Rightarrow> string" where
  "csvContent csvRows = join [LF] (map (\<lambda>row. join '','' (map csvCell row)) csvRows)"

definition handleExportFiles :: "File list \<Rightarrow> range_error + string" where
  "handleExportFiles filesState =
     (case exportRows filesState [exportHeaders] of
        Inl e \<Rightarrow> Inl e
      | Inr csvRows \<Rightarrow> Inr (csvContent csvRows))"

text \<open>
  Modelled from the spec: the remapping of the export's seven columns to the importer's
  two, which the round trip of section 8 presupposes and no code of the repository
  performs. Each exported row keeps its File Name and Attributes cells and is written
  with the export's own cell encoding.
\<close>

definition remapRow :: "string list \<Rightarrow> string list" where
  "remapRow row = [row ! 0, row ! 6]"

definition remapExport :: "string list list \<Rightarrow> string" where
  "remapExport csvRows = csvContent (map remapRow csvRows)"

section \<open>The CSV field parser\<close>

text \<open>
  \<open>parseCSVLine\<close> (inside \<open>handleImportFiles\<close>): the \<open>for\<close> loop over the characters
  of the line, with its three variables \<open>result\<close>, \<open>cell\<close> and \<open>inQuotes\<close>. The look-ahead
  \<open>line[i + 1] === '"'\<close> is the head of the remaining input; the extra \<open>i++\<close> of the
  escaped-quote branch drops that head.
\<close>

fun csv_loop :: "string \<Rightarrow> string list \<Rightarrow> string \<Rightarrow> bool \<Rightarrow> string list" where
  "csv_loop [] result cell inQuotes = result @ [trim cell]"
| "csv_loop (c # rest) result cell inQuotes =
     (if c = DQUOTE then
        (case rest of
           d # rest' \<Rightarrow>
             if inQuotes \<and> d = DQUOTE then csv_loop rest' result (cell @ [DQUOTE]) inQuotes
             else csv_loop rest result cell (\<not> inQuotes)
         | [] \<Rightarrow> csv_loop rest result cell (\<not> inQuotes))
      else if c = CHR '','' \<and> \<not> inQuotes then csv_loop rest (result @ [trim cell]) [] inQuotes
      else csv_loop rest result (cell @ [c]) inQuotes)"

definition parseCSVLine :: "string \<Rightarrow> string list" where
  "parseCSVLine line = csv_loop line [] [] False"

text \<open>
  A CSV line as RFC 4180 writes it: fields separated by commas, each either enclosed in
  double quotes with every inner quote doubled, or bare (holding neither a quote nor a
  comma).
\<close>

datatype field = Quoted string | Bare string

fun fieldText :: "field \<Rightarrow> string" where
  "fieldText (Quoted s) = s"
| "fieldText (Bare s) = s"

fun renderField :: "field \<Rightarrow> string" where
  "renderField (Quoted s) = csvCell s"
| "renderField (Bare s) = s"

fun wellFormedField :: "field \<Rightarrow> bool" where
  "wellFormedField (Quoted s) = True"
| "wellFormedField (Bare s) = (DQUOTE \<notin> set s \<and> CHR '','' \<notin> set s)"

section \<open>CSV import: the parse stage\<close>

text \<open>
  What aborts the parse stage. \<open>InvalidFormat\<close> is the \<open>Error\<close> "Invalid CSV format.
  Required columns: File Name, Attributes"; \<open>InvalidRow fileName e\<close> is the \<open>Error\<close> the
  \<open>catch\<close> of the row loop rethrows, "Invalid JSON in attributes for file "fileName": "
  followed by the message of \<open>e\<close>; \<open>NoValidRows\<close> is "No valid data rows found in the
  CSV file"; \<open>UndefinedTypeError\<close> is the engine's \<open>TypeError\<close> on reading a property of
  \<open>undefined\<close> (\<open>lines[0]\<close> or \<open>headers[1]\<close> missing). \<open>OutsideModel\<close> is no error of the
  program: a cell left the modelled fragment of JSON.
\<close>

datatype import_error =
  InvalidFormat | InvalidRow string row_error | NoValidRows | UndefinedTypeError
| OutsideModel

text \<open>One element of \<open>updates\<close>: the object \<open>{ fileName, attributes }\<close>.\<close>

record ImportRow =
  fileName :: string
  attributes :: json

text \<open>
  The clean-up of the attributes cell before \<open>JSON.parse\<close>: the first \<open>replace\<close> and
  \<open>trim\<close> of \<open>row[1]\<close>, then the chain of three \<open>replace\<close>s and the final \<open>trim\<close>.
\<close>

definition cleanAttributes :: "string \<Rightarrow> string" where
  "cleanAttributes cell =
     (let attributesStr = trim (stripEdgeQuotes cell)
      in trim (removeBackslashes (stripEdgeQuotes (unescapeQuotes attributesStr))))"

text \<open>
  The loop over the data lines (\<open>for (let i = 1; i < lines.length; i++)\<close>); a
  \<open>continue\<close> is the recursive call with \<open>updates\<close> unchanged, a \<open>throw\<close> ends the loop.
\<close>

fun processRows :: "string list \<Rightarrow> ImportRow list \<Rightarrow> import_error + ImportRow list" where
  "processRows [] updates = Inr updates"
| "processRows (line # rest) updates =
     (if trim line = [] \<or> startsWith line ''Instructions:'' then processRows rest updates
      else
        let row = parseCSVLine line
        in if length row < 2 then processRows rest updates
           else
             let fileName = trim (stripEdgeQuotes (row ! 0))
             in if fileName = [] then processRows rest updates
                else
                  (case JSON_parse (cleanAttributes (row ! 1)) of
                     Inl SyntaxError \<Rightarrow> Inl (InvalidRow fileName JSONSyntaxError)
                   | Inl Unmodelled \<Rightarrow> Inl OutsideModel
                   | Inr parsed \<Rightarrow>
                       (case validateMetadata parsed fileName of
                          Inl e \<Rightarrow> Inl (InvalidRow fileName e)
                        | Inr u \<Rightarrow>
                            processRows rest
                              (updates @ [\<lparr>fileName = fileName, attributes = parsed\<rparr>]))))"

text \<open>
  The header test: \<open>headers[0].toLowerCase() !== 'file name' ||
  !headers[1].toLowerCase().includes('attributes')\<close>, evaluated left to right; reading
  \<open>toLowerCase\<close> of a missing \<open>headers[1]\<close> is a \<open>TypeError\<close>.
\<close>

definition checkHeaders :: "string list \<Rightarrow> import_error + unit" where
  "checkHeaders headers =
     (case headers of
        [] \<Rightarrow> Inl UndefinedTypeError
      | h0 # hs \<Rightarrow>
          if toLowerCase h0 \<noteq> ''file name'' then Inl InvalidFormat
          else
            (case hs of
               [] \<Rightarrow> Inl UndefinedTypeError
             | h1 # hs' \<Rightarrow>
                 if \<not> includes_str (toLowerCase h1) ''attributes'' then Inl InvalidFormat
                 else Inr ()))"

text \<open>
  The parse stage of \<open>handleImportFiles\<close>, from the text of the chosen file to
  \<open>updates\<close>: everything inside the \<open>try\<close> up to the test \<open>updates.length === 0\<close>.
\<close>

definition parseStage :: "string \<Rightarrow> import_error + ImportRow list" where
  "parseStage fileText =
     (let lines = filter (\<lambda>line. trim line \<noteq> []) (splitLines fileText)
      in case lines of
           [] \<Rightarrow> Inl UndefinedTypeError
         | header # dataLines \<Rightarrow>
             (case checkHeaders (parseCSVLine header) of
                Inl e \<Rightarrow> Inl e
              | Inr u \<Rightarrow>
                  (case processRows dataLines [] of
                     Inl e \<Rightarrow> Inl e
                   | Inr updates \<Rightarrow>
                       if length updates = 0 then Inl NoValidRows else Inr updates)))"

section \<open>CSV import: reconciliation\<close>

text \<open>
  The \<open>PATCH\<close> request a page handler sends to \<open>/api/vector_stores/files/:id\<close> and what
  \<open>fetch\<close> answers: a response with \<open>ok\<close> true or false, or a rejection with a message.
  The remote side is a parameter: its answer may depend on the request and on the
  requests sent before it.
\<close>

record PatchRequest =
  urlFileId :: string
  bodyAttributes :: json
  bodyVectorStoreId :: string

datatype fetch_result = ResponseOk | ResponseNotOk | FetchRejected string

type_synonym remote = "PatchRequest list \<Rightarrow> PatchRequest \<Rightarrow> fetch_result"

text \<open>
  The \<open>error\<close> text of an entry of \<open>summary.errors.files\<close>: 'Failed to update in
  database', the message of a rejected \<open>fetch\<close>, or the message of the error that
  aborted the import.
\<close>

datatype error_text = FailedToUpdate | FetchMessage string | ImportAborted import_error

record 'a bucket =
  count :: nat
  files :: "'a list"

record ImportSummary =
  showSummary :: bool
  success :: "string bucket"
  errors :: "(string \<times> error_text) bucket"
  notFound :: "string bucket"

definition push :: "'a \<Rightarrow> 'a bucket \<Rightarrow> 'a bucket" where
  "push x b = \<lparr>count = count b + 1, files = files b @ [x]\<rparr>"

definition emptySummary :: ImportSummary where
  "emptySummary =
     \<lparr>showSummary = False,
      success = \<lparr>count = 0, files = []\<rparr>,
      errors = \<lparr>count = 0, files = []\<rparr>,
      notFound = \<lparr>count = 0, files = []\<rparr>\<rparr>"

text \<open>The predicate of \<open>files.find\<close> in the update loop.\<close>

definition matchesRow :: "string \<Rightarrow> File \<Rightarrow> bool" where
  "matchesRow rowName f =
     (filename f = rowName \<or> name f = rowName
      \<or> filename f = rowName @ ''.pdf'' \<or> name f = rowName @ ''.pdf'')"

definition findFile :: "File list \<Rightarrow> string \<Rightarrow> File option" where
  "findFile filesState rowName = find (matchesRow rowName) filesState"

text \<open>
  The loop \<open>for (const update of updates)\<close>. \<open>sent\<close> is the list of \<open>PATCH\<close> requests
  issued so far, oldest first.
\<close>

fun updateLoop ::
  "remote \<Rightarrow> File list \<Rightarrow> ImportRow list \<Rightarrow> ImportSummary \<Rightarrow> PatchRequest list
   \<Rightarrow> ImportSummary \<times> PatchRequest list" where
  "updateLoop fetch filesState [] summary sent = (summary, sent)"
| "updateLoop fetch filesState (update # rest) summary sent =
     (case findFile filesState (fileName update) of
        None \<Rightarrow>
          updateLoop fetch filesState rest
            (summary\<lparr>notFound := push (fileName update) (notFound summary)\<rparr>) sent
      | Some file \<Rightarrow>
          let request = \<lparr>urlFileId = id' file,
                         bodyAttributes = ImportRow.attributes update,
                         bodyVectorStoreId = vectorStoreId file\<rparr>
          in (case fetch sent request of
                ResponseOk \<Rightarrow>
                  updateLoop fetch filesState rest
                    (summary\<lparr>success := push (fileName update) (success summary)\<rparr>)
                    (sent @ [request])
              | ResponseNotOk \<Rightarrow>
                  updateLoop fetch filesState rest
                    (summary\<lparr>errors := push (fileName update, FailedToUpdate) (errors summary)\<rparr>)
                    (sent @ [request])
              | FetchRejected msg \<Rightarrow>
                  updateLoop fetch filesState rest
                    (summary\<lparr>errors := push (fileName update, FetchMessage msg) (errors summary)\<rparr>)
                    (sent @ [request])))"

text \<open>
  \<open>handleImportFiles\<close> for a chosen file with the given text: the summary handed to
  \<open>setImportSummary\<close> (the local \<open>summary\<close> with \<open>show: true\<close> added, or the summary of
  the outer \<open>catch\<close>) and the \<open>PATCH\<close> requests sent. The refresh of the list
  (\<open>fetchFiles\<close>) after the loop changes neither. \<open>None\<close> only when a cell leaves the
  modelled fragment of JSON.
\<close>

definition handleImportFiles ::
  "remote \<Rightarrow> File list \<Rightarrow> string \<Rightarrow> (ImportSummary \<times> PatchRequest list) option" where
  "handleImportFiles fetch filesState fileText =
     (case parseStage fileText of
        Inl e \<Rightarrow>
          if e = OutsideModel then None
          else
            Some (\<lparr>showSummary = True,
                   success = \<lparr>count = 0, files = []\<rparr>,
                   errors = \<lparr>count = 1, files = [(''Import Process'', ImportAborted e)]\<rparr>,
                   notFound = \<lparr>count = 0, files = []\<rparr>\<rparr>, [])
      | Inr updates \<Rightarrow>
          (case updateLoop fetch filesState updates emptySummary [] of
             (summary, sent) \<Rightarrow> Some (summary\<lparr>showSummary := True\<rparr>, sent)))"

section \<open>Editing the attributes of one file\<close>

text \<open>
  What \<open>handleSaveMetadata\<close> reports through \<open>toast\<close>: success, or the message of the
  error caught. \<open>InputSyntaxError\<close> is the \<open>SyntaxError\<close> of \<open>JSON.parse\<close>,
  \<open>KeysTypeError\<close> the \<open>TypeError\<close> of \<open>Object.keys(null)\<close>; the others are the
  \<open>Error\<close>s the handler throws itself and the message of a rejected \<open>fetch\<close>.
\<close>

datatype save_error =
  InputSyntaxError | KeysTypeError | TooManyKeys | KeyTooLong | UpdateFailed
| FetchFailed string

datatype toast = ToastSuccess | ToastError save_error

text \<open>
  The state \<open>handleSaveMetadata\<close> leaves behind: the \<open>files\<close> and \<open>editingFile\<close> state
  variables, the toast shown (if any) and the \<open>PATCH\<close> requests sent.
\<close>

record SaveResult =
  newFiles :: "File list"
  newEditingFile :: "File option"
  shownToast :: "toast option"
  sentRequests :: "PatchRequest list"

definition saveFailed :: "File list \<Rightarrow> File option \<Rightarrow> save_error \<Rightarrow> PatchRequest list \<Rightarrow> SaveResult" where
  "saveFailed filesState editingFile e sent =
     \<lparr>newFiles = filesState, newEditingFile = editingFile,
      shownToast = Some (ToastError e), sentRequests = sent\<rparr>"

text \<open>
  \<open>handleSaveMetadata\<close>, with the state variables \<open>files\<close>, \<open>editingFile\<close> and
  \<open>metadataInput\<close> as arguments. \<open>None\<close> only when the input leaves the modelled
  fragment of JSON.
\<close>

definition handleSaveMetadata ::
  "remote \<Rightarrow> File list \<Rightarrow> File option \<Rightarrow> string \<Rightarrow> SaveResult option" where
  "handleSaveMetadata fetch filesState editingFile metadataInput =
     (case editingFile of
        None \<Rightarrow>
          Some \<lparr>newFiles = filesState, newEditingFile = editingFile,
                shownToast = None, sentRequests = []\<rparr>
      | Some edited \<Rightarrow>
          (case JSON_parse metadataInput of
             Inl SyntaxError \<Rightarrow> Some (saveFailed filesState editingFile InputSyntaxError [])
           | Inl Unmodelled \<Rightarrow> None
           | Inr parsedAttributes \<Rightarrow>
               (case Object_keys parsedAttributes of
                  None \<Rightarrow> Some (saveFailed filesState editingFile KeysTypeError [])
                | Some keys \<Rightarrow>
                    if length keys > 16 then
                      Some (saveFailed filesState editingFile TooManyKeys [])
                    else if list_ex (\<lambda>key. length key > 256) keys then
                      Some (saveFailed filesState editingFile KeyTooLong [])
                    else
                      let request = \<lparr>urlFileId = id' edited,
                                     bodyAttributes = parsedAttributes,
                                     bodyVectorStoreId = vectorStoreId edited\<rparr>
                      in (case fetch [] request of
                            ResponseOk \<Rightarrow>
                              Some \<lparr>newFiles =
                                      map (\<lambda>file. if id' file = id' edited
                                                   then file\<lparr>File.attributes := parsedAttributes\<rparr>
                                                   else file) filesState,
                                    newEditingFile = None,
                                    shownToast = Some ToastSuccess,
                                    sentRequests = [request]\<rparr>
                          | ResponseNotOk \<Rightarrow>
                              Some (saveFailed filesState editingFile UpdateFailed [request])
                          | FetchRejected msg \<Rightarrow>
                              Some (saveFailed filesState editingFile (FetchFailed msg)
                                      [request])))))"

section \<open>The \<open>PATCH\<close> route\<close>

text \<open>
  \<open>PATCH\<close> of the route file under \<open>src/unnamed\<close> (\<open>/api/vector_stores/files/:fileId\<close>).
  The call it makes to the vector-store service, \<open>openai.vectorStores.files.update\<close>,
  either returns the updated file or throws an error with a message; the service is a
  parameter.
\<close>

record UpdateCall =
  callVectorStoreId :: json
  callFileId :: string
  callAttributes :: json

type_synonym service = "UpdateCall \<Rightarrow> string + json"

datatype response_body = ErrorBody string | FileBody json

record Response =
  status :: nat
  body :: response_body

text \<open>\<open>!v\<close> on a property value: \<open>undefined\<close>, \<open>null\<close>, \<open>false\<close>, \<open>0\<close> and \<open>''\<close> are falsy.\<close>

fun falsy :: "json option \<Rightarrow> bool" where
  "falsy None = True"
| "falsy (Some JNull) = True"
| "falsy (Some (JBool b)) = (\<not> b)"
| "falsy (Some (JNum n)) = (n = Finite 0)"
| "falsy (Some (JStr s)) = (s = [])"
| "falsy (Some v) = False"

definition errorResponse :: "nat \<Rightarrow> string \<Rightarrow> Response \<times> UpdateCall list" where
  "errorResponse code message = (\<lparr>status = code, body = ErrorBody message\<rparr>, [])"

text \<open>
  The handler's result is its response and the calls it made to the service.
  \<open>requestJson\<close> is what \<open>request.json()\<close> yields (\<open>None\<close> when it throws). Destructuring
  \<open>null\<close> and \<open>Object.keys\<close> of \<open>undefined\<close> or \<open>null\<close> throw a \<open>TypeError\<close>, which the
  outer \<open>catch\<close> turns into the status 500.
\<close>

definition PATCH :: "service \<Rightarrow> json option \<Rightarrow> string \<Rightarrow> Response \<times> UpdateCall list" where
  "PATCH update requestJson fileId =
     (case requestJson of
        None \<Rightarrow> errorResponse 500 ''Failed to process attributes update request''
      | Some JNull \<Rightarrow> errorResponse 500 ''Failed to process attributes update request''
      | Some requestBody \<Rightarrow>
          let attributes = getProp requestBody ''attributes'';
              vectorStoreId = getProp requestBody ''vectorStoreId''
          in if falsy vectorStoreId then errorResponse 400 ''Vector store ID is required''
             else
               (case Option.bind attributes Object_keys of
                  None \<Rightarrow> errorResponse 500 ''Failed to process attributes update request''
                | Some keys \<Rightarrow>
                    if length keys > 16 then
                      errorResponse 400 ''Attributes cannot have more than 16 keys''
                    else if list_ex (\<lambda>key. length key > 256) keys then
                      errorResponse 400 ''Attribute keys cannot be longer than 256 characters''
                    else
                      let call = \<lparr>callVectorStoreId = the vectorStoreId,
                                   callFileId = fileId,
                                   callAttributes = the attributes\<rparr>
                      in (case update call of
                            Inl message \<Rightarrow> (\<lparr>status = 500, body = ErrorBody message\<rparr>, [call])
                          | Inr updatedFile \<Rightarrow>
                              (\<lparr>status = 200, body = FileBody updatedFile\<rparr>, [call]))))"

section \<open>Notions used to state the properties\<close>

text \<open>
  A value violates the metadata schema when a required key is missing, or \<open>year\<close> is
  not a number, or \<open>status\<close> is not one of the five valid statuses.
\<close>

definition violatesSchema :: "json \<Rightarrow> bool" where
  "violatesSchema a =
     (list_ex (\<lambda>field. \<not> hasField a field) requiredFields
      \<or> \<not> isNumber (getProp a ''year'')
      \<or> \<not> isValidStatus (getProp a ''status''))"

text \<open>The errors \<open>validateMetadata\<close> throws itself: the spec's SchemaViolation.\<close>

fun isSchemaViolation :: "row_error \<Rightarrow> bool" where
  "isSchemaViolation (MissingFields fs) = True"
| "isSchemaViolation YearNotNumber = True"
| "isSchemaViolation InvalidStatus = True"
| "isSchemaViolation _ = False"

text \<open>The summary the outer \<open>catch\<close> of \<open>handleImportFiles\<close> shows for an aborted import.\<close>

definition abortedSummary :: "import_error \<Rightarrow> ImportSummary" where
  "abortedSummary e =
     \<lparr>showSummary = True,
      success = \<lparr>count = 0, files = []\<rparr>,
      errors = \<lparr>count = 1, files = [(''Import Process'', ImportAborted e)]\<rparr>,
      notFound = \<lparr>count = 0, files = []\<rparr>\<rparr>"

text \<open>
  The fate of one parsed row in the update loop, and the rows of each fate in row
  order: \<open>tags\<close> gives the fate of every row of \<open>rows\<close>, position by position.
\<close>

datatype row_outcome = Succeeded | NotFound | Failed error_text

definition namesWith :: "row_outcome \<Rightarrow> ImportRow list \<Rightarrow> row_outcome list \<Rightarrow> string list" where
  "namesWith t rows tags = map (\<lambda>p. fileName (fst p)) (filter (\<lambda>p. snd p = t) (zip rows tags))"

fun failureOf :: "ImportRow \<times> row_outcome \<Rightarrow> (string \<times> error_text) list" where
  "failureOf (row, Failed e) = [(fileName row, e)]"
| "failureOf (row, t) = []"

definition failuresOf :: "ImportRow list \<Rightarrow> row_outcome list \<Rightarrow> (string \<times> error_text) list" where
  "failuresOf rows tags = concat (map failureOf (zip rows tags))"

text \<open>
  A timestamp in Unix seconds whose time value in milliseconds is a valid date: at most
  \<open>8.64 * 10^15\<close> ms away from the epoch.
\<close>

definition validTimestamp :: "int \<Rightarrow> bool" where
  "validTimestamp seconds =
     (- 8640000000000000 \<le> seconds * 1000 \<and> seconds * 1000 \<le> 8640000000000000)"

text \<open>The first cell of an exported row: \<open>file.filename || file.name\<close>.\<close>

definition exportName :: "File \<Rightarrow> string" where
  "exportName file = (if filename file \<noteq> [] then filename file else name file)"

text \<open>
  The JSON values whose text \<open>JSON.stringify\<close> writes without any escape and without
  loss: every string in them (keys included) is free of double quotes, backslashes and
  control characters, and every number is finite (\<open>JSON.stringify\<close> writes an infinity as
  \<open>null\<close>). As everywhere, a finite number is a double and the keys of an object are
  distinct.
\<close>

definition plainChar :: "char \<Rightarrow> bool" where
  "plainChar c = (c \<noteq> DQUOTE \<and> c \<noteq> BACKSLASH \<and> 32 \<le> (of_char c :: nat))"

definition plainString :: "string \<Rightarrow> bool" where
  "plainString s = list_all plainChar s"

fun plainJson :: "json \<Rightarrow> bool" where
  "plainJson JNull = True"
| "plainJson (JBool b) = True"
| "plainJson (JNum x) = (case x of Finite q \<Rightarrow> isDouble q | _ \<Rightarrow> False)"
| "plainJson (JStr s) = plainString s"
| "plainJson (JArr xs) = (\<forall>x \<in> set xs. plainJson x)"
| "plainJson (JObj kvs) =
     (distinct (map fst kvs) \<and> (\<forall>kv \<in> set kvs. plainString (fst kv) \<and> plainJson (snd kv)))"

text \<open>
  The file name the importer reads from an exported name cell: \<open>parseCSVLine\<close> trims the
  cell, then the row loop strips one quote at each end and trims again.
\<close>

definition importedName :: "string \<Rightarrow> string" where
  "importedName cell = trim (stripEdgeQuotes (trim cell))"

text \<open>
  A record that survives the round trip: its date is valid, its exported name holds no
  line feed and is not read as empty, and its attributes are plain and satisfy the
  schema.
\<close>

definition importable :: "File \<Rightarrow> bool" where
  "importable file =
     (validTimestamp (created_at file)
      \<and> LF \<notin> set (exportName file)
      \<and> importedName (exportName file) \<noteq> []
      \<and> plainJson (File.attributes file)
      \<and> \<not> violatesSchema (File.attributes file))"

text \<open>The line of the remapped export for one record, and the row the importer reads from it.\<close>

definition remappedLine :: "File \<Rightarrow> string" where
  "remappedLine file =
     join '','' (map csvCell [exportName file, JSON_stringify (File.attributes file)])"

definition importedRow :: "File \<Rightarrow> ImportRow" where
  "importedRow file =
     \<lparr>fileName = importedName (exportName file), attributes = File.attributes file\<rparr>"

text \<open>What may follow a value inside JSON text: nothing, a comma or a closing bracket.\<close>

definition stops :: "string \<Rightarrow> bool" where
  "stops r = (r = [] \<or> hd r = CHR '','' \<or> hd r = CHR '']'' \<or> hd r = CHR ''}'')"

text \<open>Characters that neither the line splitter nor the clean-up of a cell touches.\<close>

definition quietChar :: "char \<Rightarrow> bool" where
  "quietChar c = (c \<noteq> BACKSLASH \<and> c \<noteq> LF)"

section \<open>Example data\<close>

definition exampleAttributes :: json where
  "exampleAttributes =
     JObj [(''title'', JStr ''t''), (''documentCategory'', JStr ''c''),
           (''documentType'', JStr ''d''), (''year'', JNum (Finite 2021)), (''version'', JStr ''''),
           (''referenceCode'', JStr ''r''), (''status'', JStr ''active''),
           (''jurisdiction'', JStr ''aus'')]"

definition exampleFile :: File where
  "exampleFile =
     \<lparr>id' = ''file-1'', name = ''report.pdf'', attributes = exampleAttributes,
      vectorStoreId = ''vs_1'', object = ''file'', bytes = 10, created_at = 1700000000,
      filename = ''report.pdf'', purpose = ''assistants''\<rparr>"

text \<open>
  A two-row import file: the row \<open>report\<close> matches \<open>exampleFile\<close> through the \<open>.pdf\<close>
  suffix, the row \<open>other\<close> matches nothing.
\<close>

definition exampleCsv :: string where
  "exampleCsv =
     ''File Name,Attributes'' @ [LF]
     @ ''report,'' @ csvCell (JSON_stringify exampleAttributes) @ [LF]
     @ ''other,'' @ csvCell (JSON_stringify exampleAttributes)"

definition exampleRequest :: PatchRequest where
  "exampleRequest =
     \<lparr>urlFileId = ''file-1'', bodyAttributes = exampleAttributes, bodyVectorStoreId = ''vs_1''\<rparr>"

text \<open>
  An import file whose second data row lacks \<open>status\<close>, after a first row that is
  valid and matches \<open>exampleFile\<close>.
\<close>

definition attributesWithoutStatus :: json where
  "attributesWithoutStatus =
     JObj [(''title'', JStr ''t''), (''documentCategory'', JStr ''c''),
           (''documentType'', JStr ''d''), (''year'', JNum (Finite 2021)), (''version'', JStr ''''),
           (''referenceCode'', JStr ''r''), (''jurisdiction'', JStr ''aus'')]"

definition exampleBadCsv :: string where
  "exampleBadCsv =
     ''File Name,Attributes'' @ [LF]
     @ ''report,'' @ csvCell (JSON_stringify exampleAttributes) @ [LF]
     @ ''other,'' @ csvCell (JSON_stringify attributesWithoutStatus)"

text \<open>An import file whose only data row has the number 5 in its attributes cell.\<close>

definition numberRowCsv :: string where
  "numberRowCsv = ''File Name,Attributes'' @ [LF] @ ''report,5''"

text \<open>An attribute map with seventeen keys.\<close>

definition seventeenKeys :: json where
  "seventeenKeys = JObj (map (\<lambda>i. (showDigits (int i), JNull)) [0..<17])"

text \<open>
  Attributes that satisfy the schema but hold a line feed in \<open>title\<close>, and what the
  importer reads back for them.
\<close>

definition newlineAttributes :: json where
  "newlineAttributes =
     JObj [(''title'', JStr (''a'' @ [LF] @ ''b'')), (''documentCategory'', JStr ''c''),
           (''documentType'', JStr ''d''), (''year'', JNum (Finite 2021)), (''version'', JStr ''''),
           (''referenceCode'', JStr ''r''), (''status'', JStr ''active''),
           (''jurisdiction'', JStr ''aus'')]"

definition alteredAttributes :: json where
  "alteredAttributes =
     JObj [(''title'', JStr ''anb''), (''documentCategory'', JStr ''c''),
           (''documentType'', JStr ''d''), (''year'', JNum (Finite 2021)), (''version'', JStr ''''),
           (''referenceCode'', JStr ''r''), (''status'', JStr ''active''),
           (''jurisdiction'', JStr ''aus'')]"


text \<open>
  Attributes that satisfy the schema and hold one more key, \<open>weight\<close>: with the value
  one half; with an infinity (what \<open>JSON.parse\<close> returns for a literal such as \<open>1e999\<close>),
  and what the importer reads back for it.
\<close>

definition fractionAttributes :: json where
  "fractionAttributes =
     JObj [(''title'', JStr ''t''), (''documentCategory'', JStr ''c''),
           (''documentType'', JStr ''d''), (''year'', JNum (Finite 2021)), (''version'', JStr ''''),
           (''referenceCode'', JStr ''r''), (''status'', JStr ''active''),
           (''jurisdiction'', JStr ''aus''), (''weight'', JNum (Finite (1 / 2)))]"

definition infiniteAttributes :: json where
  "infiniteAttributes =
     JObj [(''title'', JStr ''t''), (''documentCategory'', JStr ''c''),
           (''documentType'', JStr ''d''), (''year'', JNum (Finite 2021)), (''version'', JStr ''''),
           (''referenceCode'', JStr ''r''), (''status'', JStr ''active''),
           (''jurisdiction'', JStr ''aus''), (''weight'', JNum PosInfinity)]"

definition nulledAttributes :: json where
  "nulledAttributes =
     JObj [(''title'', JStr ''t''), (''documentCategory'', JStr ''c''),
           (''documentType'', JStr ''d''), (''year'', JNum (Finite 2021)), (''version'', JStr ''''),
           (''referenceCode'', JStr ''r''), (''status'', JStr ''active''),
           (''jurisdiction'', JStr ''aus''), (''weight'', JNull)]"

section \<open>Properties of numbers\<close>

declare showDigits.simps [simp del]
declare stripZeros.simps [simp del]

subsection \<open>Powers\<close>

lemma pow10_powi: "pow10 e = 10 powi e"
  unfolding pow10_def power_int_def by (simp add: power_one_over inverse_eq_divide)

lemma pow2_powi: "pow2 e = 2 powi e"
  unfolding pow2_def power_int_def by (simp add: power_one_over inverse_eq_divide)

lemma pow10_add: "pow10 (a + b) = pow10 a * pow10 b"
  by (simp add: pow10_powi power_int_add)

lemma pow2_add: "pow2 (a + b) = pow2 a * pow2 b"
  by (simp add: pow2_powi power_int_add)

lemma pow10_pos: "0 < pow10 e"
  by (simp add: pow10_def)

lemma pow10_nat: "pow10 (int j) = of_int (10 ^ j)"
  by (simp add: pow10_def)

lemma pow2_nat: "pow2 (int j) = of_int (2 ^ j)"
  by (simp add: pow2_def)

lemma pow10_minus: "pow10 (- e) = 1 / pow10 e"
  by (simp add: pow10_powi power_int_minus inverse_eq_divide)

lemma pow10_Suc: "pow10 (e + 1) = 10 * pow10 e"
  using pow10_add[of e 1] by (simp add: pow10_def)

subsection \<open>The shortest decimal of a double denotes it\<close>


lemma stripZeros_value:
  "stripZeros s e = (s', e') \<Longrightarrow>
   of_int s' * pow10 e' = of_int s * pow10 e \<and> (0 < s \<longrightarrow> 0 < s')"
proof (induction s e rule: stripZeros.induct)
  case (1 s e)
  show ?case
  proof (cases "0 < s \<and> s mod 10 = 0")
    case True
    then have "stripZeros (s div 10) (e + 1) = (s', e')"
      using 1(2) by (subst (asm) stripZeros.simps) simp
    from 1(1)[OF True this]
    have ih: "of_int s' * pow10 e' = of_int (s div 10) * pow10 (e + 1)"
      and pos: "0 < s div 10 \<longrightarrow> 0 < s'"
      by simp_all
    from True have s: "s = 10 * (s div 10)" by presburger
    have "of_int (s div 10) * pow10 (e + 1) = (of_int (10 * (s div 10)) :: rat) * pow10 e"
      by (simp add: pow10_Suc)
    with ih s have "of_int s' * pow10 e' = of_int s * pow10 e" by simp
    moreover have "0 < s div 10" using True by presburger
    ultimately show ?thesis using pos by simp
  next
    case False
    then have "(s', e') = (s, e)"
      using 1(2) by (subst (asm) stripZeros.simps) (auto split: if_splits)
    then show ?thesis by simp
  qed
qed

lemma toDouble_zero: "toDouble 0 = Finite 0"
  by (simp add: toDouble_def)

lemma candidate_sound:
  assumes "0 < x" and "candidate x n k = Some (s, e)"
  shows "toDouble (of_int s * pow10 e) = Finite x \<and> 0 < s"
proof -
  let ?e = "n - k"
  let ?t = "x / pow10 ?e"
  let ?lo = "\<lfloor>?t\<rfloor>"
  have t: "0 < ?t" using assms(1) pow10_pos[of ?e] by simp
  then have lo: "0 \<le> ?lo" by simp
  note nonneg = this
  from assms(2) consider
    (lo) "toDouble (of_int ?lo * pow10 ?e) = Finite x" "stripZeros ?lo ?e = (s, e)"
  | (hi) "toDouble (of_int (?lo + 1) * pow10 ?e) = Finite x" "stripZeros (?lo + 1) ?e = (s, e)"
    by (simp add: candidate_def Let_def split: if_splits)
  then show ?thesis
  proof cases
    case lo
    have "?lo \<noteq> 0"
    proof
      assume "?lo = 0"
      with lo(1) have "Finite 0 = Finite x" by (simp add: toDouble_zero)
      with assms(1) show False by simp
    qed
    with nonneg have "0 < ?lo" by linarith
    with stripZeros_value[OF lo(2)] lo(1) show ?thesis by simp
  next
    case hi
    have "0 < ?lo + 1" using nonneg by linarith
    with stripZeros_value[OF hi(2)] hi(1) show ?thesis by simp
  qed
qed

lemma isDouble_scaled:
  assumes "isDouble x" and "0 < x"
  shows "\<exists>m e. x = of_int m * pow2 e \<and> - 1074 \<le> e"
proof -
  let ?e = "max (binaryExponent x) (- 1022)"
  let ?m = "roundHalfEven (x / pow2 (?e - 52))"
  from assms have "roundPositive x = Finite x"
    by (simp add: isDouble_def toDouble_def)
  then have "x = of_int ?m * pow2 (?e - 52)"
    by (simp add: roundPositive_def Let_def split: if_splits)
  moreover have "- 1074 \<le> ?e - 52" by simp
  ultimately show ?thesis by blast
qed

lemma scaled_integer:
  assumes "x = of_int m * pow2 e" and "- 1074 \<le> e" and "1074 \<le> j"
  shows "\<exists>z. x / pow10 (- j) = of_int z"
proof -
  define J where "J = nat j"
  define E where "E = nat (e + j)"
  have J: "j = int J" using assms(3) by (simp add: J_def)
  have E: "e + j = int E" using assms(2,3) by (simp add: E_def)
  have "pow10 j = pow2 j * of_int (5 ^ J)"
    by (simp add: J pow10_nat pow2_nat power_mult_distrib [symmetric])
  then have "x / pow10 (- j) = of_int m * (pow2 e * pow2 j) * of_int (5 ^ J)"
    using assms(1) by (simp add: pow10_minus)
  also have "pow2 e * pow2 j = of_int (2 ^ E)"
    using E by (simp add: pow2_add [symmetric] pow2_nat)
  finally have "x / pow10 (- j) = of_int (m * 2 ^ E * 5 ^ J)"
    by simp
  then show ?thesis by blast
qed

lemma shortest_sound:
  assumes "isDouble x" and "0 < x"
  shows "1074 \<le> int fuel + k - n \<Longrightarrow> shortest fuel x n k = (s, e) \<Longrightarrow>
         toDouble (of_int s * pow10 e) = Finite x \<and> 0 < s"
proof (induction fuel arbitrary: k)
  case 0
  from isDouble_scaled[OF assms] obtain m e0 where x: "x = of_int m * pow2 e0" "- 1074 \<le> e0"
    by blast
  from 0(1) have j: "1074 \<le> k - n" by simp
  from scaled_integer[OF x j] obtain z where z: "x / pow10 (n - k) = of_int z"
    by auto
  have "0 < x / pow10 (n - k)" using assms(2) pow10_pos[of "n - k"] by simp
  with z have zpos: "0 < z" by simp
  from z have fl: "\<lfloor>x / pow10 (n - k)\<rfloor> = z" by simp
  from 0(2) fl have "stripZeros z (n - k) = (s, e)" by simp
  from stripZeros_value[OF this] zpos
  have "of_int s * pow10 e = of_int z * pow10 (n - k)" "0 < s" by simp_all
  moreover have "of_int z * pow10 (n - k) = x"
    using z pow10_pos[of "n - k"] by (simp add: field_simps)
  ultimately show ?case using assms(1) by (simp add: isDouble_def)
next
  case (Suc fuel)
  show ?case
  proof (cases "candidate x n k")
    case None
    with Suc.prems(2) have "shortest fuel x n (k + 1) = (s, e)" by simp
    moreover have "1074 \<le> int fuel + (k + 1) - n" using Suc.prems(1) by simp
    ultimately show ?thesis by (rule Suc.IH[rotated])
  next
    case (Some d)
    with Suc.prems(2) have "candidate x n k = Some (s, e)" by simp
    from candidate_sound[OF assms(2) this] show ?thesis .
  qed
qed

lemma shortestDecimal_sound:
  assumes "isDouble x" and "0 < x" and "shortestDecimal x = (s, e)"
  shows "toDouble (of_int s * pow10 e) = Finite x \<and> 0 < s"
proof -
  let ?n = "decimalExponent x"
  have "shortest (nat (1074 + ?n)) x ?n 1 = (s, e)"
    using assms(3) by (simp add: shortestDecimal_def Let_def)
  moreover have "1074 \<le> int (nat (1074 + ?n)) + 1 - ?n" by simp
  ultimately show ?thesis
    using shortest_sound[OF assms(1,2)] by blast
qed

subsection \<open>Digits\<close>

lemma isDigit_digitChar: "d < 10 \<Longrightarrow> isDigit (digitChar d)"
  by (simp add: isDigit_def digitChar_def)

lemma digitVal_digitChar: "d < 10 \<Longrightarrow> digitVal (digitChar d) = d"
  by (simp add: digitVal_def digitChar_def)

lemma showDigits_nonempty: "showDigits n \<noteq> []"
  by (subst showDigits.simps) simp

lemma showDigits_digits: "0 \<le> n \<Longrightarrow> list_all isDigit (showDigits n)"
proof (induction n rule: showDigits.induct)
  case (1 n)
  show ?case
  proof (cases "n < 10")
    case True
    with 1 show ?thesis
      by (subst showDigits.simps) (simp add: isDigit_digitChar)
  next
    case False
    with 1 have "list_all isDigit (showDigits (n div 10))" by simp
    moreover have "nat (n mod 10) < 10" using 1(2) by simp
    ultimately show ?thesis
      using False by (subst showDigits.simps) (simp add: isDigit_digitChar)
  qed
qed

lemma intOfDigits_snoc: "intOfDigits (ds @ [c]) = 10 * intOfDigits ds + int (digitVal c)"
  by (simp add: intOfDigits_def)

lemma intOfDigits_showDigits: "0 \<le> n \<Longrightarrow> intOfDigits (showDigits n) = n"
proof (induction n rule: showDigits.induct)
  case (1 n)
  show ?case
  proof (cases "n < 10")
    case True
    with 1 show ?thesis
      by (subst showDigits.simps) (simp add: intOfDigits_def digitVal_digitChar)
  next
    case False
    with 1 have "intOfDigits (showDigits (n div 10)) = n div 10" by simp
    moreover have "nat (n mod 10) < 10" using 1(2) by simp
    ultimately show ?thesis
      using False 1(2)
      by (subst showDigits.simps) (simp add: intOfDigits_snoc digitVal_digitChar)
  qed
qed

lemma hd_showDigits: "0 < n \<Longrightarrow> hd (showDigits n) \<noteq> CHR ''0''"
proof (induction n rule: showDigits.induct)
  case (1 n)
  show ?case
  proof (cases "n < 10")
    case True
    have "nat n < 10" "nat n \<noteq> 0" using True 1(2) by simp_all
    then have "digitChar (nat n) \<noteq> CHR ''0''"
      using digitVal_digitChar[of "nat n"] by (auto simp add: digitVal_def)
    then show ?thesis
      using True by (subst showDigits.simps) simp
  next
    case False
    with 1 have "hd (showDigits (n div 10)) \<noteq> CHR ''0''" by simp
    then show ?thesis
      using False by (subst showDigits.simps) (simp add: showDigits_nonempty)
  qed
qed

lemma takeWhile_digits:
  "list_all isDigit ds \<Longrightarrow> r = [] \<or> \<not> isDigit (hd r) \<Longrightarrow> takeWhile isDigit (ds @ r) = ds"
  by (cases r) (auto simp add: list_all_iff takeWhile_append2)

lemma stops_not_digit: "stops r \<Longrightarrow> r = [] \<or> \<not> isDigit (hd r)"
  by (auto simp add: stops_def isDigit_def)

lemma stops_not_point: "stops r \<Longrightarrow> r = [] \<or> hd r \<noteq> CHR ''.''"
  by (auto simp add: stops_def)

lemma stops_not_exponent: "stops r \<Longrightarrow> r = [] \<or> (hd r \<noteq> CHR ''e'' \<and> hd r \<noteq> CHR ''E'')"
  by (auto simp add: stops_def)

lemma not_digit:
  "\<not> isDigit (CHR ''.'')" "\<not> isDigit (CHR ''e'')" "\<not> isDigit (CHR ''E'')"
  "\<not> isDigit (CHR ''+'')" "\<not> isDigit (CHR ''-'')"
  by (simp_all add: isDigit_def)

lemma digit_not_sign:
  assumes "isDigit c"
  shows "c \<noteq> CHR ''-''" "c \<noteq> CHR ''+''" "c \<noteq> CHR ''.''" "c \<noteq> CHR ''e''" "c \<noteq> CHR ''E''"
  using assms not_digit by blast+

lemma isDigit_zero: "isDigit (CHR ''0'')"
  by (simp add: isDigit_def)

lemma digitVal_zero: "digitVal (CHR ''0'') = 0"
  by (simp add: digitVal_def)

lemma intOfDigits_append:
  "intOfDigits (a @ b) = intOfDigits a * 10 ^ length b + intOfDigits b"
proof (induction b rule: rev_induct)
  case Nil
  show ?case by (simp add: intOfDigits_def)
next
  case (snoc c b)
  have "intOfDigits (a @ b @ [c]) = 10 * intOfDigits (a @ b) + int (digitVal c)"
    using intOfDigits_snoc[of "a @ b" c] by simp
  then show ?case
    by (simp add: snoc.IH intOfDigits_snoc algebra_simps)
qed

lemma intOfDigits_zeros: "intOfDigits (replicate n (CHR ''0'')) = 0"
proof (induction n)
  case 0
  show ?case by (simp add: intOfDigits_def)
next
  case (Suc n)
  have "replicate (Suc n) (CHR ''0'') = replicate n (CHR ''0'') @ [CHR ''0'']"
    by (simp add: replicate_append_same)
  then show ?case
    by (simp only: intOfDigits_snoc Suc.IH digitVal_zero)
qed

lemma intOfDigits_single_zero: "intOfDigits ''0'' = 0"
  by (simp add: intOfDigits_def digitVal_def)


subsection \<open>The parts of a number token\<close>

lemma parseFraction_none:
  "r = [] \<or> hd r \<noteq> CHR ''.'' \<Longrightarrow> parseFraction r = Inr ([], r)"
  by (cases r) (simp_all add: parseFraction_def)

lemma parseFraction_some:
  assumes "fs \<noteq> []" and "list_all isDigit fs" and "r = [] \<or> \<not> isDigit (hd r)"
  shows "parseFraction (CHR ''.'' # fs @ r) = Inr (fs, r)"
  using assms(1) takeWhile_digits[OF assms(2,3)]
  by (simp add: parseFraction_def Let_def)

lemma parseExponent_none:
  "r = [] \<or> (hd r \<noteq> CHR ''e'' \<and> hd r \<noteq> CHR ''E'') \<Longrightarrow> parseExponent r = Inr (0, r)"
  by (cases r) (simp_all add: parseExponent_def)

lemma parseExponent_plus:
  assumes "0 \<le> m" and "r = [] \<or> \<not> isDigit (hd r)"
  shows "parseExponent (CHR ''e'' # CHR ''+'' # showDigits m @ r) = Inr (m, r)"
  using showDigits_nonempty[of m] takeWhile_digits[OF showDigits_digits[OF assms(1)] assms(2)]
    intOfDigits_showDigits[OF assms(1)]
  by (simp add: parseExponent_def Let_def)

lemma parseExponent_minus:
  assumes "0 \<le> m" and "r = [] \<or> \<not> isDigit (hd r)"
  shows "parseExponent (CHR ''e'' # CHR ''-'' # showDigits m @ r) = Inr (- m, r)"
  using showDigits_nonempty[of m] takeWhile_digits[OF showDigits_digits[OF assms(1)] assms(2)]
    intOfDigits_showDigits[OF assms(1)]
  by (simp add: parseExponent_def Let_def)

lemma parseNumber_parts:
  assumes ne: "ds \<noteq> []" and dig: "list_all isDigit ds"
    and lead: "ds = ''0'' \<or> hd ds \<noteq> CHR ''0''"
    and tail: "tail = [] \<or> \<not> isDigit (hd tail)"
    and frac: "parseFraction tail = Inr (fs, s2)"
    and expo: "parseExponent s2 = Inr (ex, rest)"
  shows "parseNumber (ds @ tail)
           = Inr (toDouble (of_int (intOfDigits (ds @ fs)) * pow10 (ex - int (length fs))), rest)"
    and "parseNumber (CHR ''-'' # ds @ tail)
           = Inr (negate (toDouble (of_int (intOfDigits (ds @ fs))
                                    * pow10 (ex - int (length fs)))), rest)"
proof -
  have hdig: "isDigit (hd ds)" using ne dig by (cases ds) simp_all
  then have nominus: "hd ds \<noteq> CHR ''-''" by (rule digit_not_sign)
  have hdapp: "hd (ds @ tail) = hd ds" using ne by simp
  have tw: "takeWhile isDigit (ds @ tail) = ds"
    using takeWhile_digits[OF dig tail] .
  show "parseNumber (ds @ tail)
           = Inr (toDouble (of_int (intOfDigits (ds @ fs)) * pow10 (ex - int (length fs))), rest)"
  proof (cases "hd ds = CHR ''0''")
    case True
    with lead have "ds = ''0''" by simp
    then show ?thesis
      using frac expo by (simp add: parseNumber_def Let_def isDigit_zero)
  next
    case False
    then show ?thesis
      using ne hdig nominus hdapp tw frac expo
      by (simp add: parseNumber_def Let_def)
  qed
  show "parseNumber (CHR ''-'' # ds @ tail)
           = Inr (negate (toDouble (of_int (intOfDigits (ds @ fs))
                                    * pow10 (ex - int (length fs)))), rest)"
  proof (cases "hd ds = CHR ''0''")
    case True
    with lead have "ds = ''0''" by simp
    then show ?thesis
      using frac expo by (simp add: parseNumber_def Let_def isDigit_zero)
  next
    case False
    then show ?thesis
      using ne hdig hdapp tw frac expo
      by (simp add: parseNumber_def Let_def)
  qed
qed

subsection \<open>\<open>JSON.parse\<close> reads back what \<open>Number::toString\<close> writes\<close>

lemma parseNumber_shape:
  assumes "text = ds @ tail"
    and "ds \<noteq> []" and "list_all isDigit ds"
    and "ds = ''0'' \<or> hd ds \<noteq> CHR ''0''"
    and "tail = [] \<or> \<not> isDigit (hd tail)"
    and "parseFraction tail = Inr (fs, s2)"
    and "parseExponent s2 = Inr (ex, r)"
    and "of_int (intOfDigits (ds @ fs)) * pow10 (ex - int (length fs)) = v"
  shows "parseNumber text = Inr (toDouble v, r)
       \<and> parseNumber (CHR ''-'' # text) = Inr (negate (toDouble v), r)"
  using parseNumber_parts[OF assms(2-7)] assms(1,8) by simp

lemma parseExponent_signed:
  assumes "r = [] \<or> \<not> isDigit (hd r)"
  shows "parseExponent (''e'' @ (if 0 \<le> m then ''+'' else ''-'') @ showDigits (abs m) @ r)
           = Inr (m, r)"
proof (cases "0 \<le> m")
  case True
  then show ?thesis using parseExponent_plus[OF True assms] by simp
next
  case False
  then have "0 \<le> - m" by simp
  from parseExponent_minus[OF this assms] False show ?thesis by simp
qed

lemma intOfDigits_leading_zeros:
  "intOfDigits (replicate m (CHR ''0'') @ ds) = intOfDigits ds"
  by (simp add: intOfDigits_append intOfDigits_zeros)

lemma list_all_take: "list_all P xs \<Longrightarrow> list_all P (take n xs)"
  by (auto simp add: list_all_iff dest: in_set_takeD)

lemma list_all_drop: "list_all P xs \<Longrightarrow> list_all P (drop n xs)"
  by (auto simp add: list_all_iff dest: in_set_dropD)

lemma list_all_tl: "list_all P xs \<Longrightarrow> list_all P (tl xs)"
  by (cases xs) simp_all

lemma list_all_zeros: "list_all isDigit (replicate n (CHR ''0''))"
  by (simp add: list_all_iff isDigit_zero)

lemma formatDecimal_parse:
  assumes s: "0 < s" and r: "stops r"
  shows "parseNumber (formatDecimal (s, e) @ r) = Inr (toDouble (of_int s * pow10 e), r)
       \<and> parseNumber (CHR ''-'' # formatDecimal (s, e) @ r)
           = Inr (negate (toDouble (of_int s * pow10 e)), r)"
proof -
  define ds where "ds = showDigits s"
  define k where "k = int (length ds)"
  define n where "n = e + k"
  have ne: "ds \<noteq> []" by (simp add: ds_def showDigits_nonempty)
  have dig: "list_all isDigit ds" using s by (simp add: ds_def showDigits_digits)
  have lead: "hd ds \<noteq> CHR ''0''" using s by (simp add: ds_def hd_showDigits)
  have val: "intOfDigits ds = s" using s by (simp add: ds_def intOfDigits_showDigits)
  have k1: "1 \<le> k" using ne by (cases ds) (simp_all add: k_def)
  have e: "e = n - k" by (simp add: n_def)
  note rd = stops_not_digit[OF r]
  note rp = parseFraction_none[OF stops_not_point[OF r]]
  note re = parseExponent_none[OF stops_not_exponent[OF r]]
  have fd: "formatDecimal (s, e) =
     (if k \<le> n \<and> n \<le> 21 then ds @ replicate (nat (n - k)) (CHR ''0'')
      else if 0 < n \<and> n \<le> 21 then take (nat n) ds @ ''.'' @ drop (nat n) ds
      else if - 6 < n \<and> n \<le> 0 then ''0.'' @ replicate (nat (- n)) (CHR ''0'') @ ds
      else (if k = 1 then ds else [hd ds] @ ''.'' @ tl ds)
           @ ''e'' @ (if 0 \<le> n - 1 then ''+'' else ''-'') @ showDigits (abs (n - 1)))"
    by (simp add: formatDecimal_def Let_def ds_def k_def n_def)
  consider (int) "k \<le> n" "n \<le> 21"
    | (point) "\<not> (k \<le> n \<and> n \<le> 21)" "0 < n" "n \<le> 21"
    | (small) "\<not> (k \<le> n \<and> n \<le> 21)" "\<not> (0 < n \<and> n \<le> 21)" "- 6 < n" "n \<le> 0"
    | (expo) "\<not> (k \<le> n \<and> n \<le> 21)" "\<not> (0 < n \<and> n \<le> 21)" "\<not> (- 6 < n \<and> n \<le> 0)"
    by blast
  then show ?thesis
  proof cases
    case int
    let ?zs = "replicate (nat (n - k)) (CHR ''0'')"
    have shape: "formatDecimal (s, e) @ r = (ds @ ?zs) @ r"
      using int by (simp add: fd)
    have v: "of_int (intOfDigits ((ds @ ?zs) @ [])) * pow10 (0 - int (length ([] :: string)))
               = (of_int s :: rat) * pow10 e"
      using int by (simp add: intOfDigits_append intOfDigits_zeros val e pow10_def)
    show ?thesis
    proof (rule parseNumber_shape[OF shape _ _ _ rd rp re v])
      show "ds @ ?zs \<noteq> []" using ne by simp
      show "list_all isDigit (ds @ ?zs)" using dig list_all_zeros by simp
      show "ds @ ?zs = ''0'' \<or> hd (ds @ ?zs) \<noteq> CHR ''0''" using ne lead by simp
    qed
  next
    case point
    then have nk: "n < k" by simp
    let ?a = "take (nat n) ds" and ?b = "drop (nat n) ds"
    have shape: "formatDecimal (s, e) @ r = ?a @ (CHR ''.'' # ?b @ r)"
      using point by (simp add: fd)
    have bne: "?b \<noteq> []" using nk point(2) by (simp add: k_def)
    have frac: "parseFraction (CHR ''.'' # ?b @ r) = Inr (?b, r)"
      using parseFraction_some[OF bne list_all_drop[OF dig] rd] .
    have len: "int (length ?b) = k - n" using nk point(2) by (simp add: k_def)
    have ex0: "0 - int (length ?b) = e" using len unfolding e by linarith
    have v: "of_int (intOfDigits (?a @ ?b)) * pow10 (0 - int (length ?b))
               = (of_int s :: rat) * pow10 e"
      by (simp only: append_take_drop_id val ex0)
    show ?thesis
    proof (rule parseNumber_shape[OF shape _ _ _ _ frac re v])
      show "?a \<noteq> []" using ne point(2) by simp
      show "list_all isDigit ?a" using dig by (rule list_all_take)
      show "?a = ''0'' \<or> hd ?a \<noteq> CHR ''0''" using lead point(2) by (simp add: hd_take)
      show "CHR ''.'' # ?b @ r = [] \<or> \<not> isDigit (hd (CHR ''.'' # ?b @ r))"
        by (simp add: not_digit)
    qed
  next
    case small
    let ?zs = "replicate (nat (- n)) (CHR ''0'')"
    have shape: "formatDecimal (s, e) @ r = ''0'' @ (CHR ''.'' # (?zs @ ds) @ r)"
      using small by (simp add: fd)
    have fne: "?zs @ ds \<noteq> []" using ne by simp
    have fdig: "list_all isDigit (?zs @ ds)" using dig list_all_zeros by simp
    have frac: "parseFraction (CHR ''.'' # (?zs @ ds) @ r) = Inr (?zs @ ds, r)"
      using parseFraction_some[OF fne fdig rd] .
    have len: "int (length (?zs @ ds)) = k - n" using small by (simp add: k_def)
    have ex0: "0 - int (length (?zs @ ds)) = e" using len unfolding e by linarith
    have iv: "intOfDigits (''0'' @ ?zs @ ds) = s"
      using intOfDigits_leading_zeros[of "Suc (nat (- n))" ds] val by simp
    have v: "of_int (intOfDigits (''0'' @ ?zs @ ds)) * pow10 (0 - int (length (?zs @ ds)))
               = (of_int s :: rat) * pow10 e"
      by (simp only: iv ex0)
    show ?thesis
    proof (rule parseNumber_shape[OF shape _ _ _ _ frac re v])
      show "''0'' \<noteq> []" by simp
      show "list_all isDigit ''0''" by (simp add: isDigit_zero)
      show "''0'' = ''0'' \<or> hd ''0'' \<noteq> CHR ''0''" by simp
      show "CHR ''.'' # (?zs @ ds) @ r = [] \<or> \<not> isDigit (hd (CHR ''.'' # (?zs @ ds) @ r))"
        by (simp add: not_digit)
    qed
  next
    case expo
    let ?x = "''e'' @ (if 0 \<le> n - 1 then ''+'' else ''-'') @ showDigits (abs (n - 1)) @ r"
    have f4: "formatDecimal (s, e) =
        (if k = 1 then ds else [hd ds] @ ''.'' @ tl ds)
        @ ''e'' @ (if 0 \<le> n - 1 then ''+'' else ''-'') @ showDigits (abs (n - 1))"
      by (simp only: fd expo if_False)
    have ex: "parseExponent ?x = Inr (n - 1, r)"
      using parseExponent_signed[OF rd] .
    have xnd: "\<not> isDigit (hd ?x)" by (simp add: not_digit)
    have xnp: "hd ?x \<noteq> CHR ''.''" by simp
    have xne: "?x \<noteq> []" by simp
    show ?thesis
    proof (cases "k = 1")
      case True
      have shape: "formatDecimal (s, e) @ r = ds @ ?x"
        using True by (simp add: f4)
      have frac: "parseFraction ?x = Inr ([], ?x)"
        by (rule parseFraction_none) (use xnp in blast)
      have v: "of_int (intOfDigits (ds @ [])) * pow10 (n - 1 - int (length ([] :: string)))
               = (of_int s :: rat) * pow10 e"
        using True by (simp add: val e)
      show ?thesis
      proof (rule parseNumber_shape[OF shape ne dig _ _ frac ex v])
        show "ds = ''0'' \<or> hd ds \<noteq> CHR ''0''" using lead by simp
        show "?x = [] \<or> \<not> isDigit (hd ?x)" using xnd by blast
      qed
    next
      case False
      with k1 have k2: "2 \<le> k" by simp
      obtain d rest where dr: "ds = d # rest" using ne by (cases ds) auto
      with k2 have restne: "rest \<noteq> []" by (auto simp add: k_def)
      have shape: "formatDecimal (s, e) @ r = [d] @ (CHR ''.'' # rest @ ?x)"
        using False dr by (simp add: f4)
      have rdig: "list_all isDigit rest" using dig dr by simp
      have frac: "parseFraction (CHR ''.'' # rest @ ?x) = Inr (rest, ?x)"
        by (rule parseFraction_some[OF restne rdig]) (use xnd in blast)
      have len: "int (length rest) = k - 1" using dr by (simp add: k_def)
      have ex0: "n - 1 - int (length rest) = e" using len unfolding e by linarith
      have iv: "intOfDigits ([d] @ rest) = s" using val dr by simp
      have v: "of_int (intOfDigits ([d] @ rest)) * pow10 (n - 1 - int (length rest))
               = (of_int s :: rat) * pow10 e"
        by (simp only: iv ex0)
      show ?thesis
      proof (rule parseNumber_shape[OF shape _ _ _ _ frac ex v])
        show "[d] \<noteq> []" by simp
        show "list_all isDigit [d]" using dig dr by simp
        show "[d] = ''0'' \<or> hd [d] \<noteq> CHR ''0''" using lead dr by simp
        show "CHR ''.'' # rest @ ?x = [] \<or> \<not> isDigit (hd (CHR ''.'' # rest @ ?x))"
          by (simp add: not_digit)
      qed
    qed
  qed
qed

lemma isDouble_negative:
  assumes "isDouble q" and "q < 0"
  shows "isDouble (- q)"
proof -
  from assms have "negate (roundPositive (- q)) = Finite q"
    by (simp add: isDouble_def toDouble_def)
  then have "roundPositive (- q) = Finite (- q)"
    by (cases "roundPositive (- q)") simp_all
  then show ?thesis
    using assms(2) by (simp add: isDouble_def toDouble_def)
qed

lemma parseNumber_toString:
  assumes "isDouble q" and "stops r"
  shows "parseNumber (Number_toString (Finite q) @ r) = Inr (Finite q, r)"
proof -
  consider (zero) "q = 0" | (pos) "0 < q" | (neg) "q < 0"
    by linarith
  then show ?thesis
  proof cases
    case zero
    have "parseNumber (''0'' @ r) = Inr (toDouble 0, r)
        \<and> parseNumber (CHR ''-'' # ''0'' @ r) = Inr (negate (toDouble 0), r)"
    proof (rule parseNumber_shape[where ds = "''0''" and tail = r and fs = "[]" and ex = 0])
      show "''0'' @ r = ''0'' @ r" by simp
      show "''0'' \<noteq> []" by simp
      show "list_all isDigit ''0''" by (simp add: isDigit_zero)
      show "''0'' = ''0'' \<or> hd ''0'' \<noteq> CHR ''0''" by simp
      show "r = [] \<or> \<not> isDigit (hd r)" using assms(2) by (rule stops_not_digit)
      show "parseFraction r = Inr ([], r)"
        using assms(2) by (intro parseFraction_none stops_not_point)
      show "parseExponent r = Inr (0, r)"
        using assms(2) by (intro parseExponent_none stops_not_exponent)
      show "of_int (intOfDigits (''0'' @ [])) * pow10 (0 - int (length ([] :: string))) = 0"
        by (simp add: intOfDigits_single_zero)
    qed
    then show ?thesis
      using zero by (simp add: Number_toString_def toDouble_zero)
  next
    case pos
    obtain s e where se: "shortestDecimal q = (s, e)" by (cases "shortestDecimal q")
    from shortestDecimal_sound[OF assms(1) pos se]
    have v: "toDouble (of_int s * pow10 e) = Finite q" and s: "0 < s" by simp_all
    from formatDecimal_parse[OF s assms(2), of e] v se pos show ?thesis
      by (simp add: Number_toString_def)
  next
    case neg
    then have pos: "0 < - q" by simp
    obtain s e where se: "shortestDecimal (- q) = (s, e)" by (cases "shortestDecimal (- q)")
    from shortestDecimal_sound[OF isDouble_negative[OF assms(1) neg] pos se]
    have v: "toDouble (of_int s * pow10 e) = Finite (- q)" and s: "0 < s" by simp_all
    from formatDecimal_parse[OF s assms(2), of e] v se neg show ?thesis
      by (simp add: Number_toString_def)
  qed
qed

subsection \<open>The characters of a number\<close>

lemma showDigits_all_digits: "list_all isDigit (showDigits n)"
proof (cases "0 \<le> n")
  case True
  then show ?thesis by (rule showDigits_digits)
next
  case False
  then have "nat n = 0" by simp
  then show ?thesis
    using False by (subst showDigits.simps) (simp add: isDigit_digitChar)
qed

lemma formatDecimal_chars:
  "\<forall>c \<in> set (formatDecimal d). isDigit c \<or> c \<in> set ''.e+-''"
proof -
  define ds where "ds = showDigits (fst d)"
  define xs where "xs = showDigits (abs (snd d + int (length ds) - 1))"
  have ds: "\<forall>c \<in> set ds. isDigit c"
    using showDigits_all_digits[of "fst d"] by (simp add: ds_def list_all_iff)
  have xs: "\<forall>c \<in> set xs. isDigit c"
    using showDigits_all_digits[of "abs (snd d + int (length ds) - 1)"]
    by (simp add: xs_def list_all_iff)
  have tk: "\<forall>c \<in> set (take j ds). isDigit c" for j
    using ds by (auto dest: in_set_takeD)
  have dr: "\<forall>c \<in> set (drop j ds). isDigit c" for j
    using ds by (auto dest: in_set_dropD)
  have ne: "ds \<noteq> []" by (simp add: ds_def showDigits_nonempty)
  then have h: "isDigit (hd ds)" using ds by (cases ds) simp_all
  have t: "\<forall>c \<in> set (tl ds). isDigit c" using ds ne by (cases ds) simp_all
  have z: "isDigit (CHR ''0'')" by (rule isDigit_zero)
  show ?thesis
    unfolding formatDecimal_def Let_def ds_def [symmetric] xs_def [symmetric]
    using ds xs tk dr h t z by (auto split: if_splits)
qed

lemma formatDecimal_head:
  "\<exists>c s. formatDecimal d = c # s \<and> isDigit c"
proof -
  define ds where "ds = showDigits (fst d)"
  have ne: "ds \<noteq> []" by (simp add: ds_def showDigits_nonempty)
  have dig: "list_all isDigit ds" by (simp add: ds_def showDigits_all_digits)
  obtain c rest where cr: "ds = c # rest" using ne by (cases ds) auto
  with dig have c: "isDigit c" by simp
  have z: "isDigit (CHR ''0'')" by (rule isDigit_zero)
  have tk: "0 < j \<Longrightarrow> take (nat j) ds = c # take (nat j - 1) rest" for j :: int
    using cr by (cases "nat j") simp_all
  show ?thesis
    unfolding formatDecimal_def Let_def ds_def [symmetric]
    using c z cr tk by (auto split: if_splits)
qed

lemma digit_quiet: "isDigit c \<Longrightarrow> quietChar c"
proof -
  assume d: "isDigit c"
  have "\<not> isDigit BACKSLASH" "\<not> isDigit LF" by (simp_all add: isDigit_def)
  with d show "quietChar c" unfolding quietChar_def by metis
qed

lemma quiet_number_signs:
  "quietChar (CHR ''.'')" "quietChar (CHR ''e'')" "quietChar (CHR ''+'')" "quietChar (CHR ''-'')"
  by (simp_all add: quietChar_def)

lemma quiet_formatDecimal: "\<forall>c \<in> set (formatDecimal d). quietChar c"
proof
  fix c assume "c \<in> set (formatDecimal d)"
  with formatDecimal_chars have "isDigit c \<or> c \<in> set ''.e+-''" by blast
  then show "quietChar c"
    using digit_quiet quiet_number_signs by auto
qed

lemma quiet_numberText: "\<forall>c \<in> set (Number_toString (Finite q)). quietChar c"
  using quiet_formatDecimal digit_quiet[OF isDigit_zero] quiet_number_signs
  by (simp add: Number_toString_def)

lemma numberText_head:
  "\<exists>c s. Number_toString (Finite q) = c # s \<and> (isDigit c \<or> c = CHR ''-'')"
proof -
  consider (zero) "q = 0" | (neg) "q \<noteq> 0" "q < 0" | (pos) "q \<noteq> 0" "\<not> q < 0"
    by blast
  then show ?thesis
  proof cases
    case zero
    then show ?thesis by (simp add: Number_toString_def isDigit_zero)
  next
    case neg
    then show ?thesis by (simp add: Number_toString_def)
  next
    case pos
    with formatDecimal_head[of "shortestDecimal q"] show ?thesis
      by (auto simp add: Number_toString_def)
  qed
qed
section \<open>Properties of the CSV field parser\<close>

declare csv_loop.simps(2) [simp del]

lemma csv_loop_open:
  "csv_loop (DQUOTE # rest) result cell False = csv_loop rest result cell True"
  by (cases rest) (simp_all add: csv_loop.simps(2))

lemma csv_loop_escaped:
  "csv_loop (DQUOTE # DQUOTE # rest) result cell True = csv_loop rest result (cell @ [DQUOTE]) True"
  by (simp add: csv_loop.simps(2))

lemma csv_loop_close:
  "rest = [] \<or> hd rest \<noteq> DQUOTE \<Longrightarrow>
   csv_loop (DQUOTE # rest) result cell True = csv_loop rest result cell False"
  by (cases rest) (auto simp add: csv_loop.simps(2))

lemma csv_loop_comma:
  "csv_loop (CHR '','' # rest) result cell False = csv_loop rest (result @ [trim cell]) [] False"
  by (simp add: csv_loop.simps(2))

lemma csv_loop_char:
  "c \<noteq> DQUOTE \<Longrightarrow> c \<noteq> CHR '','' \<or> q \<Longrightarrow>
   csv_loop (c # rest) result cell q = csv_loop rest result (cell @ [c]) q"
  by (auto simp add: csv_loop.simps(2))

text \<open>
  Inside quotes the parser copies the field verbatim, commas included, reading each
  doubled quote as one quote, up to the closing quote.
\<close>

lemma csv_loop_quoted_body:
  "rest = [] \<or> hd rest \<noteq> DQUOTE \<Longrightarrow>
   csv_loop (doubleQuotes s @ DQUOTE # rest) result cell True = csv_loop rest result (cell @ s) False"
proof (induction s arbitrary: cell)
  case Nil
  then show ?case by (simp add: csv_loop_close)
next
  case (Cons c s)
  then show ?case by (simp add: csv_loop_escaped csv_loop_char)
qed

lemma csv_loop_bare:
  "DQUOTE \<notin> set s \<Longrightarrow> CHR '','' \<notin> set s \<Longrightarrow>
   csv_loop (s @ rest) result cell q = csv_loop rest result (cell @ s) q"
  by (induction s arbitrary: cell) (auto simp add: csv_loop_char)

lemma csv_loop_field:
  assumes "wellFormedField f" and "rest = [] \<or> hd rest = CHR '',''"
  shows "csv_loop (renderField f @ rest) result [] False = csv_loop rest result (fieldText f) False"
proof (cases f)
  case (Quoted s)
  have "rest = [] \<or> hd rest \<noteq> DQUOTE" using assms(2) by auto
  from csv_loop_quoted_body[OF this, of s result "[]"] show ?thesis
    using Quoted by (simp add: csvCell_def csv_loop_open)
next
  case (Bare s)
  then show ?thesis using assms(1) csv_loop_bare[of s rest result "[]" False] by simp
qed

lemma csv_loop_fields:
  "fs \<noteq> [] \<Longrightarrow> list_all wellFormedField fs \<Longrightarrow>
   csv_loop (join '','' (map renderField fs)) result [] False = result @ map (trim \<circ> fieldText) fs"
proof (induction fs arbitrary: result)
  case Nil
  then show ?case by simp
next
  case (Cons f fs)
  show ?case
  proof (cases fs)
    case Nil
    then show ?thesis using csv_loop_field[of f "[]" result] Cons.prems by simp
  next
    case (Cons g gs)
    have "csv_loop (renderField f @ CHR '','' # join '','' (map renderField fs)) result [] False
        = csv_loop (CHR '','' # join '','' (map renderField fs)) result (fieldText f) False"
      using csv_loop_field[of f "CHR '','' # join '','' (map renderField fs)" result] Cons.prems
      by simp
    also have "\<dots> = csv_loop (join '','' (map renderField fs)) (result @ [trim (fieldText f)]) [] False"
      by (simp add: csv_loop_comma)
    also have "\<dots> = (result @ [trim (fieldText f)]) @ map (trim \<circ> fieldText) fs"
      using Cons.IH[of "result @ [trim (fieldText f)]"] Cons.prems Cons by simp
    finally show ?thesis using Cons by simp
  qed
qed

lemma parseCSVLine_fields:
  "fs \<noteq> [] \<Longrightarrow> list_all wellFormedField fs \<Longrightarrow>
   parseCSVLine (join '','' (map renderField fs)) = map (trim \<circ> fieldText) fs"
  using csv_loop_fields[of fs "[]"] by (simp add: parseCSVLine_def)

text \<open>
  C3. The field parser honours double-quoted fields and doubled-quote escaping. For every
  line made of quoted and bare fields, it returns exactly one cell per field, each the
  field's own text (trimmed, as the parser trims every cell): a comma inside a quoted
  field does not split it and a doubled quote decodes to one quote. A single quoted
  field of any content comes back as one cell. The line \<open>"a,b","c"\<close> parses to the two
  fields \<open>a,b\<close> and \<open>c\<close>, and the field \<open>"a""b"\<close> parses to \<open>a"b\<close>.
\<close>

theorem parseCSVLine_honours_quotes:
  "(fs \<noteq> [] \<and> list_all wellFormedField fs \<longrightarrow>
      parseCSVLine (join '','' (map renderField fs)) = map (trim \<circ> fieldText) fs)
   \<and> parseCSVLine (csvCell s) = [trim s]
   \<and> parseCSVLine ([DQUOTE] @ ''a,b'' @ [DQUOTE] @ '','' @ [DQUOTE] @ ''c'' @ [DQUOTE])
       = [''a,b'', ''c'']
   \<and> parseCSVLine ([DQUOTE] @ ''a'' @ [DQUOTE, DQUOTE] @ ''b'' @ [DQUOTE])
       = [''a'' @ [DQUOTE] @ ''b'']"
proof (intro conjI impI)
  assume "fs \<noteq> [] \<and> list_all wellFormedField fs"
  then show "parseCSVLine (join '','' (map renderField fs)) = map (trim \<circ> fieldText) fs"
    by (simp add: parseCSVLine_fields)
next
  show "parseCSVLine (csvCell s) = [trim s]"
    using parseCSVLine_fields[of "[Quoted s]"] by simp
next
  show "parseCSVLine ([DQUOTE] @ ''a,b'' @ [DQUOTE] @ '','' @ [DQUOTE] @ ''c'' @ [DQUOTE])
       = [''a,b'', ''c'']"
    by (simp add: parseCSVLine_def csv_loop.simps trim_def isWhiteSpace_def)
next
  show "parseCSVLine ([DQUOTE] @ ''a'' @ [DQUOTE, DQUOTE] @ ''b'' @ [DQUOTE])
       = [''a'' @ [DQUOTE] @ ''b'']"
    by (simp add: parseCSVLine_def csv_loop.simps trim_def isWhiteSpace_def)
qed

theorem parseCSVLine_honours_quotes_witness:
  "parseCSVLine (join '','' (map renderField [Bare ''x'', Quoted (''p, '' @ [DQUOTE] @ ''q'' @ [DQUOTE])]))
     = [''x'', ''p, '' @ [DQUOTE] @ ''q'' @ [DQUOTE]]"
  using parseCSVLine_honours_quotes[of "[Bare ''x'', Quoted (''p, '' @ [DQUOTE] @ ''q'' @ [DQUOTE])]" "''''"]
  by (simp add: trim_def isWhiteSpace_def)

section \<open>Properties of import reconciliation\<close>

text \<open>
  C8. In the update loop a parsed row is matched to a file record exactly when some
  record's \<open>filename\<close> or \<open>name\<close> equals the row's file name, or equals the row's file
  name with \<open>.pdf\<close> appended; the record taken is then one of the list that satisfies
  this. In particular a row named \<open>report\<close> resolves to a record named \<open>report.pdf\<close>.
\<close>

theorem findFile_matches_by_name_or_pdf_suffix:
  "((\<exists>f. findFile filesState rowName = Some f) \<longleftrightarrow>
      (\<exists>f \<in> set filesState.
          filename f = rowName \<or> name f = rowName
          \<or> filename f = rowName @ ''.pdf'' \<or> name f = rowName @ ''.pdf''))
   \<and> (findFile filesState rowName = Some g \<longrightarrow>
          g \<in> set filesState
          \<and> (filename g = rowName \<or> name g = rowName
               \<or> filename g = rowName @ ''.pdf'' \<or> name g = rowName @ ''.pdf''))
   \<and> (filename r = ''report.pdf'' \<or> name r = ''report.pdf'' \<longrightarrow>
          findFile [r] ''report'' = Some r)"
proof -
  have a: "(\<exists>f. findFile filesState rowName = Some f) \<longleftrightarrow>
      (\<exists>f \<in> set filesState.
          filename f = rowName \<or> name f = rowName
          \<or> filename f = rowName @ ''.pdf'' \<or> name f = rowName @ ''.pdf'')"
  proof
    assume "\<exists>f. findFile filesState rowName = Some f"
    then obtain f where "find (matchesRow rowName) filesState = Some f"
      by (auto simp add: findFile_def)
    then have "f \<in> set filesState \<and> matchesRow rowName f"
      by (auto simp add: find_Some_iff)
    then show "\<exists>f \<in> set filesState.
          filename f = rowName \<or> name f = rowName
          \<or> filename f = rowName @ ''.pdf'' \<or> name f = rowName @ ''.pdf''"
      unfolding matchesRow_def by blast
  next
    assume "\<exists>f \<in> set filesState.
          filename f = rowName \<or> name f = rowName
          \<or> filename f = rowName @ ''.pdf'' \<or> name f = rowName @ ''.pdf''"
    then have "\<exists>f \<in> set filesState. matchesRow rowName f"
      unfolding matchesRow_def by blast
    then have "find (matchesRow rowName) filesState \<noteq> None"
      by (auto simp add: find_None_iff)
    then show "\<exists>f. findFile filesState rowName = Some f"
      by (auto simp add: findFile_def)
  qed
  have b: "findFile filesState rowName = Some g \<longrightarrow>
          g \<in> set filesState
          \<and> (filename g = rowName \<or> name g = rowName
               \<or> filename g = rowName @ ''.pdf'' \<or> name g = rowName @ ''.pdf'')"
  proof
    assume "findFile filesState rowName = Some g"
    then have "g \<in> set filesState \<and> matchesRow rowName g"
      by (auto simp add: findFile_def find_Some_iff)
    then show "g \<in> set filesState
          \<and> (filename g = rowName \<or> name g = rowName
               \<or> filename g = rowName @ ''.pdf'' \<or> name g = rowName @ ''.pdf'')"
      unfolding matchesRow_def by blast
  qed
  have c: "filename r = ''report.pdf'' \<or> name r = ''report.pdf'' \<longrightarrow>
          findFile [r] ''report'' = Some r"
    by (auto simp add: findFile_def matchesRow_def)
  show ?thesis by (intro conjI a b c)
qed

theorem findFile_matches_by_name_or_pdf_suffix_witness:
  "findFile [exampleFile] ''report'' = Some exampleFile
   \<and> exampleFile \<in> set [exampleFile]
   \<and> (\<exists>f \<in> set [exampleFile].
          filename f = ''report'' \<or> name f = ''report''
          \<or> filename f = ''report'' @ ''.pdf'' \<or> name f = ''report'' @ ''.pdf'')"
proof -
  have n: "filename exampleFile = ''report.pdf'' \<or> name exampleFile = ''report.pdf''"
    by (simp add: exampleFile_def)
  from findFile_matches_by_name_or_pdf_suffix
         [of "[exampleFile]" "''report''" exampleFile exampleFile]
  have found: "findFile [exampleFile] ''report'' = Some exampleFile"
    and iff: "(\<exists>f. findFile [exampleFile] ''report'' = Some f) \<longleftrightarrow>
      (\<exists>f \<in> set [exampleFile].
          filename f = ''report'' \<or> name f = ''report''
          \<or> filename f = ''report'' @ ''.pdf'' \<or> name f = ''report'' @ ''.pdf'')"
    and mem: "findFile [exampleFile] ''report'' = Some exampleFile \<longrightarrow>
          exampleFile \<in> set [exampleFile]
          \<and> (filename exampleFile = ''report'' \<or> name exampleFile = ''report''
               \<or> filename exampleFile = ''report'' @ ''.pdf''
               \<or> name exampleFile = ''report'' @ ''.pdf'')"
    using n by blast+
  from found iff have "\<exists>f \<in> set [exampleFile].
          filename f = ''report'' \<or> name f = ''report''
          \<or> filename f = ''report'' @ ''.pdf'' \<or> name f = ''report'' @ ''.pdf''"
    by blast
  moreover from found mem have "exampleFile \<in> set [exampleFile]"
    by blast
  ultimately show ?thesis using found by blast
qed


subsection \<open>The summary partitions the parsed rows\<close>

lemma outcome_lengths:
  "length tags = length rows \<Longrightarrow>
   length (namesWith Succeeded rows tags) + length (namesWith NotFound rows tags)
     + length (failuresOf rows tags) = length rows"
proof (induction rows tags rule: list_induct2')
  case (4 r rows t tags)
  then show ?case
    by (cases t) (simp_all add: namesWith_def failuresOf_def)
qed (simp_all add: namesWith_def failuresOf_def)

lemma updateLoop_outcomes:
  "\<exists>summary' sent' tags.
      updateLoop fetch filesState rows summary sent = (summary', sent')
    \<and> length tags = length rows
    \<and> files (success summary') = files (success summary) @ namesWith Succeeded rows tags
    \<and> count (success summary') = count (success summary) + length (namesWith Succeeded rows tags)
    \<and> files (notFound summary') = files (notFound summary) @ namesWith NotFound rows tags
    \<and> count (notFound summary') = count (notFound summary) + length (namesWith NotFound rows tags)
    \<and> files (errors summary') = files (errors summary) @ failuresOf rows tags
    \<and> count (errors summary') = count (errors summary) + length (failuresOf rows tags)"
proof (induction rows arbitrary: summary sent)
  case Nil
  show ?case
    by (intro exI[of _ summary] exI[of _ sent] exI[of _ "[]"])
       (simp add: namesWith_def failuresOf_def)
next
  case (Cons row rows)
  show ?case
  proof (cases "findFile filesState (fileName row)")
    case None
    let ?s = "summary\<lparr>notFound := push (fileName row) (notFound summary)\<rparr>"
    from Cons.IH[of ?s sent] obtain summary' sent' tags where
      h: "updateLoop fetch filesState rows ?s sent = (summary', sent')"
         "length tags = length rows"
         "files (success summary') = files (success ?s) @ namesWith Succeeded rows tags"
         "count (success summary') = count (success ?s) + length (namesWith Succeeded rows tags)"
         "files (notFound summary') = files (notFound ?s) @ namesWith NotFound rows tags"
         "count (notFound summary') = count (notFound ?s) + length (namesWith NotFound rows tags)"
         "files (errors summary') = files (errors ?s) @ failuresOf rows tags"
         "count (errors summary') = count (errors ?s) + length (failuresOf rows tags)"
      by blast
    show ?thesis
      using None h
      by (intro exI[of _ summary'] exI[of _ sent'] exI[of _ "NotFound # tags"])
         (simp add: namesWith_def failuresOf_def push_def)
  next
    case (Some f)
    let ?req = "\<lparr>urlFileId = id' f, bodyAttributes = ImportRow.attributes row,
                  bodyVectorStoreId = vectorStoreId f\<rparr>"
    show ?thesis
    proof (cases "fetch sent ?req")
      case ResponseOk
      let ?s = "summary\<lparr>success := push (fileName row) (success summary)\<rparr>"
      from Cons.IH[of ?s "sent @ [?req]"] obtain summary' sent' tags where
        h: "updateLoop fetch filesState rows ?s (sent @ [?req]) = (summary', sent')"
           "length tags = length rows"
           "files (success summary') = files (success ?s) @ namesWith Succeeded rows tags"
           "count (success summary') = count (success ?s) + length (namesWith Succeeded rows tags)"
           "files (notFound summary') = files (notFound ?s) @ namesWith NotFound rows tags"
           "count (notFound summary') = count (notFound ?s) + length (namesWith NotFound rows tags)"
           "files (errors summary') = files (errors ?s) @ failuresOf rows tags"
           "count (errors summary') = count (errors ?s) + length (failuresOf rows tags)"
        by blast
      show ?thesis
        using Some ResponseOk h
        by (intro exI[of _ summary'] exI[of _ sent'] exI[of _ "Succeeded # tags"])
           (simp add: namesWith_def failuresOf_def push_def)
    next
      case ResponseNotOk
      let ?s = "summary\<lparr>errors := push (fileName row, FailedToUpdate) (errors summary)\<rparr>"
      from Cons.IH[of ?s "sent @ [?req]"] obtain summary' sent' tags where
        h: "updateLoop fetch filesState rows ?s (sent @ [?req]) = (summary', sent')"
           "length tags = length rows"
           "files (success summary') = files (success ?s) @ namesWith Succeeded rows tags"
           "count (success summary') = count (success ?s) + length (namesWith Succeeded rows tags)"
           "files (notFound summary') = files (notFound ?s) @ namesWith NotFound rows tags"
           "count (notFound summary') = count (notFound ?s) + length (namesWith NotFound rows tags)"
           "files (errors summary') = files (errors ?s) @ failuresOf rows tags"
           "count (errors summary') = count (errors ?s) + length (failuresOf rows tags)"
        by blast
      show ?thesis
        using Some ResponseNotOk h
        by (intro exI[of _ summary'] exI[of _ sent'] exI[of _ "Failed FailedToUpdate # tags"])
           (simp add: namesWith_def failuresOf_def push_def)
    next
      case (FetchRejected msg)
      let ?s = "summary\<lparr>errors := push (fileName row, FetchMessage msg) (errors summary)\<rparr>"
      from Cons.IH[of ?s "sent @ [?req]"] obtain summary' sent' tags where
        h: "updateLoop fetch filesState rows ?s (sent @ [?req]) = (summary', sent')"
           "length tags = length rows"
           "files (success summary') = files (success ?s) @ namesWith Succeeded rows tags"
           "count (success summary') = count (success ?s) + length (namesWith Succeeded rows tags)"
           "files (notFound summary') = files (notFound ?s) @ namesWith NotFound rows tags"
           "count (notFound summary') = count (notFound ?s) + length (namesWith NotFound rows tags)"
           "files (errors summary') = files (errors ?s) @ failuresOf rows tags"
           "count (errors summary') = count (errors ?s) + length (failuresOf rows tags)"
        by blast
      show ?thesis
        using Some FetchRejected h
        by (intro exI[of _ summary'] exI[of _ sent'] exI[of _ "Failed (FetchMessage msg) # tags"])
           (simp add: namesWith_def failuresOf_def push_def)
    qed
  qed
qed

text \<open>
  C10. Whenever the parse stage succeeds with \<open>n\<close> rows, the import produces a summary
  that partitions them: every row has one fate (succeeded, not found or failed), the
  three \<open>files\<close> lists are the rows of each fate in input row order, each \<open>count\<close> is the
  length of its list, and the three counts add up to \<open>n\<close>.
\<close>

theorem import_summary_partitions_rows:
  assumes "parseStage fileText = Inr updates"
  shows "\<exists>summary sent tags.
      handleImportFiles fetch filesState fileText = Some (summary, sent)
    \<and> length tags = length updates
    \<and> files (success summary) = namesWith Succeeded updates tags
    \<and> files (notFound summary) = namesWith NotFound updates tags
    \<and> files (errors summary) = failuresOf updates tags
    \<and> count (success summary) = length (files (success summary))
    \<and> count (notFound summary) = length (files (notFound summary))
    \<and> count (errors summary) = length (files (errors summary))
    \<and> count (success summary) + count (notFound summary) + count (errors summary)
        = length updates"
proof -
  from updateLoop_outcomes[of fetch filesState updates emptySummary "[]"]
  obtain summary' sent' tags where
    h: "updateLoop fetch filesState updates emptySummary [] = (summary', sent')"
       "length tags = length updates"
       "files (success summary') = files (success emptySummary) @ namesWith Succeeded updates tags"
       "count (success summary') = count (success emptySummary) + length (namesWith Succeeded updates tags)"
       "files (notFound summary') = files (notFound emptySummary) @ namesWith NotFound updates tags"
       "count (notFound summary') = count (notFound emptySummary) + length (namesWith NotFound updates tags)"
       "files (errors summary') = files (errors emptySummary) @ failuresOf updates tags"
       "count (errors summary') = count (errors emptySummary) + length (failuresOf updates tags)"
    by blast
  have total: "length (namesWith Succeeded updates tags) + length (namesWith NotFound updates tags)
      + length (failuresOf updates tags) = length updates"
    using outcome_lengths[OF h(2)] .
  show ?thesis
    using assms h total
    by (intro exI[of _ "summary'\<lparr>showSummary := True\<rparr>"] exI[of _ sent'] exI[of _ tags])
       (simp add: handleImportFiles_def emptySummary_def)
qed

theorem import_summary_partitions_rows_witness:
  "\<exists>summary sent tags.
      handleImportFiles (\<lambda>h r. ResponseOk) [exampleFile] exampleCsv = Some (summary, sent)
    \<and> length tags = length [\<lparr>fileName = ''report'', attributes = exampleAttributes\<rparr>,
                              \<lparr>fileName = ''other'', attributes = exampleAttributes\<rparr>]
    \<and> files (success summary) = namesWith Succeeded
         [\<lparr>fileName = ''report'', attributes = exampleAttributes\<rparr>,
          \<lparr>fileName = ''other'', attributes = exampleAttributes\<rparr>] tags
    \<and> files (notFound summary) = namesWith NotFound
         [\<lparr>fileName = ''report'', attributes = exampleAttributes\<rparr>,
          \<lparr>fileName = ''other'', attributes = exampleAttributes\<rparr>] tags
    \<and> files (errors summary) = failuresOf
         [\<lparr>fileName = ''report'', attributes = exampleAttributes\<rparr>,
          \<lparr>fileName = ''other'', attributes = exampleAttributes\<rparr>] tags
    \<and> count (success summary) = length (files (success summary))
    \<and> count (notFound summary) = length (files (notFound summary))
    \<and> count (errors summary) = length (files (errors summary))
    \<and> count (success summary) + count (notFound summary) + count (errors summary)
        = length [\<lparr>fileName = ''report'', attributes = exampleAttributes\<rparr>,
                  \<lparr>fileName = ''other'', attributes = exampleAttributes\<rparr>]"
proof -
  have p: "parseStage exampleCsv =
      Inr [\<lparr>fileName = ''report'', attributes = exampleAttributes\<rparr>,
           \<lparr>fileName = ''other'', attributes = exampleAttributes\<rparr>]"
    by code_simp
  show ?thesis
    by (rule import_summary_partitions_rows[OF p])
qed


subsection \<open>One matched and one unmatched row\<close>

text \<open>
  C6, counterexample. The two-row example file parses to two rows, the first matching
  the one existing record and the second matching none; when the remote update of the
  first row is answered with a response that is not ok, the summary has a succeeded
  count of 0 (and an errors count of 1), not 1.
\<close>

theorem import_two_rows_counterexample:
  "parseStage exampleCsv =
      Inr [\<lparr>fileName = ''report'', attributes = exampleAttributes\<rparr>,
           \<lparr>fileName = ''other'', attributes = exampleAttributes\<rparr>]
   \<and> findFile [exampleFile] ''report'' = Some exampleFile
   \<and> findFile [exampleFile] ''other'' = None
   \<and> handleImportFiles (\<lambda>h r. ResponseNotOk) [exampleFile] exampleCsv =
       Some (\<lparr>showSummary = True,
               success = \<lparr>count = 0, files = []\<rparr>,
               errors = \<lparr>count = 1, files = [(''report'', FailedToUpdate)]\<rparr>,
               notFound = \<lparr>count = 1, files = [''other'']\<rparr>\<rparr>,
             [exampleRequest])"
proof (intro conjI)
  show "parseStage exampleCsv =
      Inr [\<lparr>fileName = ''report'', attributes = exampleAttributes\<rparr>,
           \<lparr>fileName = ''other'', attributes = exampleAttributes\<rparr>]"
    by code_simp
  show "findFile [exampleFile] ''report'' = Some exampleFile"
    by code_simp
  show "findFile [exampleFile] ''other'' = None"
    by code_simp
  show "handleImportFiles (\<lambda>h r. ResponseNotOk) [exampleFile] exampleCsv =
       Some (\<lparr>showSummary = True,
               success = \<lparr>count = 0, files = []\<rparr>,
               errors = \<lparr>count = 1, files = [(''report'', FailedToUpdate)]\<rparr>,
               notFound = \<lparr>count = 1, files = [''other'']\<rparr>\<rparr>,
             [exampleRequest])"
    by code_simp
qed

text \<open>
  C6, amended. For an import whose parse stage succeeds with exactly two rows, where
  row 1 matches an existing record and row 2 matches none, the summary reports a
  notFound count of 1 with the list [row 2's file name], and the only remote update
  call is the one for row 1 (none is attempted for the unmatched row). When that call
  succeeds the succeeded count is 1, with the list [row 1's file name], and nothing is
  in errors; when it does not, the succeeded count is 0 and the errors count is 1.
\<close>

theorem import_one_matched_one_unmatched:
  assumes "parseStage fileText = Inr [row1, row2]"
    and "findFile filesState (fileName row1) = Some f"
    and "findFile filesState (fileName row2) = None"
  shows "\<exists>summary.
      handleImportFiles fetch filesState fileText =
        Some (summary, [\<lparr>urlFileId = id' f, bodyAttributes = ImportRow.attributes row1,
                          bodyVectorStoreId = vectorStoreId f\<rparr>])
    \<and> showSummary summary
    \<and> notFound summary = \<lparr>count = 1, files = [fileName row2]\<rparr>
    \<and> (fetch [] \<lparr>urlFileId = id' f, bodyAttributes = ImportRow.attributes row1,
                   bodyVectorStoreId = vectorStoreId f\<rparr> = ResponseOk \<longrightarrow>
          success summary = \<lparr>count = 1, files = [fileName row1]\<rparr>
        \<and> errors summary = \<lparr>count = 0, files = []\<rparr>)
    \<and> (fetch [] \<lparr>urlFileId = id' f, bodyAttributes = ImportRow.attributes row1,
                   bodyVectorStoreId = vectorStoreId f\<rparr> \<noteq> ResponseOk \<longrightarrow>
          success summary = \<lparr>count = 0, files = []\<rparr>
        \<and> count (errors summary) = 1)"
proof (cases "fetch [] \<lparr>urlFileId = id' f, bodyAttributes = ImportRow.attributes row1,
                   bodyVectorStoreId = vectorStoreId f\<rparr>")
  case ResponseOk
  then show ?thesis
    using assms by (simp add: handleImportFiles_def emptySummary_def push_def)
next
  case ResponseNotOk
  then show ?thesis
    using assms by (simp add: handleImportFiles_def emptySummary_def push_def)
next
  case (FetchRejected msg)
  then show ?thesis
    using assms by (simp add: handleImportFiles_def emptySummary_def push_def)
qed

theorem import_one_matched_one_unmatched_witness:
  "\<exists>summary.
      handleImportFiles (\<lambda>h r. ResponseOk) [exampleFile] exampleCsv =
        Some (summary, [\<lparr>urlFileId = id' exampleFile,
                          bodyAttributes = ImportRow.attributes
                             \<lparr>fileName = ''report'', attributes = exampleAttributes\<rparr>,
                          bodyVectorStoreId = vectorStoreId exampleFile\<rparr>])
    \<and> notFound summary = \<lparr>count = 1, files = [''other'']\<rparr>
    \<and> success summary = \<lparr>count = 1, files = [''report'']\<rparr>
    \<and> errors summary = \<lparr>count = 0, files = []\<rparr>"
proof -
  have p: "parseStage exampleCsv =
      Inr [\<lparr>fileName = ''report'', attributes = exampleAttributes\<rparr>,
           \<lparr>fileName = ''other'', attributes = exampleAttributes\<rparr>]"
    by code_simp
  have a: "findFile [exampleFile]
             (fileName \<lparr>fileName = ''report'', attributes = exampleAttributes\<rparr>) = Some exampleFile"
    by code_simp
  have b: "findFile [exampleFile]
             (fileName \<lparr>fileName = ''other'', attributes = exampleAttributes\<rparr>) = None"
    by code_simp
  from import_one_matched_one_unmatched[OF p a b, of "\<lambda>h r. ResponseOk"]
  show ?thesis by auto
qed


section \<open>Properties of the single-file update\<close>

text \<open>
  C9. When a single-file attribute update succeeds, the file list keeps its length and
  order; a record whose id differs from the edited file's id is unchanged, and a record
  with that id changes in its \<open>attributes\<close> field only, which becomes the parsed input:
  its id, name, filename, bytes, created_at, purpose, vectorStoreId and object stay.
\<close>

theorem handleSaveMetadata_changes_only_attributes:
  assumes "handleSaveMetadata fetch filesState (Some edited) metadataInput = Some r"
    and "shownToast r = Some ToastSuccess"
  shows "\<exists>parsed. JSON_parse metadataInput = Inr parsed
          \<and> length (newFiles r) = length filesState
          \<and> (\<forall>i < length filesState.
                (id' (filesState ! i) \<noteq> id' edited \<longrightarrow> newFiles r ! i = filesState ! i)
              \<and> (id' (filesState ! i) = id' edited \<longrightarrow>
                    newFiles r ! i = (filesState ! i)\<lparr>File.attributes := parsed\<rparr>
                  \<and> id' (newFiles r ! i) = id' (filesState ! i)
                  \<and> filename (newFiles r ! i) = filename (filesState ! i)
                  \<and> name (newFiles r ! i) = name (filesState ! i)
                  \<and> bytes (newFiles r ! i) = bytes (filesState ! i)
                  \<and> created_at (newFiles r ! i) = created_at (filesState ! i)
                  \<and> purpose (newFiles r ! i) = purpose (filesState ! i)
                  \<and> vectorStoreId (newFiles r ! i) = vectorStoreId (filesState ! i)
                  \<and> object (newFiles r ! i) = object (filesState ! i)))"
proof -
  from assms obtain parsed where p: "JSON_parse metadataInput = Inr parsed"
    by (auto simp add: handleSaveMetadata_def saveFailed_def
        split: sum.splits json_failure.splits option.splits if_splits)
  from assms p have nf: "newFiles r =
      map (\<lambda>file. if id' file = id' edited then file\<lparr>File.attributes := parsed\<rparr> else file)
        filesState"
    by (auto simp add: handleSaveMetadata_def saveFailed_def Let_def
        split: option.splits if_splits fetch_result.splits)
  show ?thesis
    using p by (intro exI[of _ parsed]) (simp add: nf)
qed

theorem handleSaveMetadata_changes_only_attributes_witness:
  "handleSaveMetadata (\<lambda>h r. ResponseOk) [exampleFile] (Some exampleFile) ''{}''
     = Some \<lparr>newFiles = [exampleFile\<lparr>File.attributes := JObj []\<rparr>], newEditingFile = None,
              shownToast = Some ToastSuccess,
              sentRequests = [\<lparr>urlFileId = ''file-1'', bodyAttributes = JObj [],
                               bodyVectorStoreId = ''vs_1''\<rparr>]\<rparr>
   \<and> (\<exists>parsed. JSON_parse ''{}'' = Inr parsed
         \<and> [exampleFile\<lparr>File.attributes := JObj []\<rparr>] ! 0
             = ([exampleFile] ! 0)\<lparr>File.attributes := parsed\<rparr>)"
proof -
  let ?r = "\<lparr>newFiles = [exampleFile\<lparr>File.attributes := JObj []\<rparr>], newEditingFile = None,
              shownToast = Some ToastSuccess,
              sentRequests = [\<lparr>urlFileId = ''file-1'', bodyAttributes = JObj [],
                               bodyVectorStoreId = ''vs_1''\<rparr>]\<rparr>"
  have h1: "handleSaveMetadata (\<lambda>h r. ResponseOk) [exampleFile] (Some exampleFile) ''{}''
     = Some ?r"
    by code_simp
  have h2: "shownToast ?r = Some ToastSuccess"
    by simp
  from handleSaveMetadata_changes_only_attributes[OF h1 h2]
  obtain parsed where p: "JSON_parse ''{}'' = Inr parsed"
    and q: "\<forall>i < length [exampleFile].
              id' ([exampleFile] ! i) = id' exampleFile \<longrightarrow>
              newFiles ?r ! i = ([exampleFile] ! i)\<lparr>File.attributes := parsed\<rparr>"
    by blast
  from q have "newFiles ?r ! 0 = ([exampleFile] ! 0)\<lparr>File.attributes := parsed\<rparr>"
    by simp
  then have "[exampleFile\<lparr>File.attributes := JObj []\<rparr>] ! 0
             = ([exampleFile] ! 0)\<lparr>File.attributes := parsed\<rparr>"
    by simp
  with p h1 show ?thesis by blast
qed


section \<open>Properties of the attribute limits\<close>

text \<open>
  C5. For every attribute map with more than 16 keys, or with some key longer than 256
  characters, the update path fails with an error before any remote call. In the page
  (\<open>handleSaveMetadata\<close>) the handler ends with an error toast, the file list and the
  edited file unchanged and no \<open>PATCH\<close> request sent. In the route (\<open>PATCH\<close>), which
  serves every update request of the page, the response is the status 400 with an error
  body and no call to the vector-store service is made.
\<close>

theorem oversized_attributes_rejected_before_remote_call:
  assumes "length kvs > 16 \<or> list_ex (\<lambda>kv. length (fst kv) > 256) kvs"
  shows "(JSON_parse metadataInput = Inr (JObj kvs) \<longrightarrow>
            (\<exists>e. handleSaveMetadata fetch filesState (Some edited) metadataInput
                    = Some \<lparr>newFiles = filesState, newEditingFile = Some edited,
                             shownToast = Some (ToastError e), sentRequests = []\<rparr>
                 \<and> (e = TooManyKeys \<or> e = KeyTooLong)))
       \<and> (getProp requestBody ''attributes'' = Some (JObj kvs) \<longrightarrow>
            (\<exists>message. PATCH update (Some requestBody) fileId
                    = (\<lparr>status = 400, body = ErrorBody message\<rparr>, [])))"
proof (intro conjI impI)
  assume p: "JSON_parse metadataInput = Inr (JObj kvs)"
  have long: "list_ex (\<lambda>kv. length (fst kv) > 256) kvs
      \<Longrightarrow> list_ex (\<lambda>key. length key > 256) (map fst kvs)"
    by (induction kvs) auto
  show "\<exists>e. handleSaveMetadata fetch filesState (Some edited) metadataInput
                    = Some \<lparr>newFiles = filesState, newEditingFile = Some edited,
                             shownToast = Some (ToastError e), sentRequests = []\<rparr>
                 \<and> (e = TooManyKeys \<or> e = KeyTooLong)"
  proof (cases "length kvs > 16")
    case True
    then show ?thesis
      using p by (simp add: handleSaveMetadata_def saveFailed_def)
  next
    case False
    with assms have "list_ex (\<lambda>key. length key > 256) (map fst kvs)"
      using long by blast
    then show ?thesis
      using p False by (simp add: handleSaveMetadata_def saveFailed_def)
  qed
next
  assume a: "getProp requestBody ''attributes'' = Some (JObj kvs)"
  then have nn: "requestBody \<noteq> JNull"
    by auto
  have long: "list_ex (\<lambda>kv. length (fst kv) > 256) kvs
      \<Longrightarrow> list_ex (\<lambda>key. length key > 256) (map fst kvs)"
    by (induction kvs) auto
  show "\<exists>message. PATCH update (Some requestBody) fileId
                    = (\<lparr>status = 400, body = ErrorBody message\<rparr>, [])"
  proof (cases "falsy (getProp requestBody ''vectorStoreId'')")
    case True
    then show ?thesis
      using nn by (cases requestBody) (simp_all add: PATCH_def errorResponse_def)
  next
    case nf: False
    show ?thesis
    proof (cases "length kvs > 16")
      case True
      then show ?thesis
        using nn nf a by (cases requestBody) (simp_all add: PATCH_def errorResponse_def)
    next
      case False
      with assms have "list_ex (\<lambda>key. length key > 256) (map fst kvs)"
        using long by blast
      then show ?thesis
        using nn nf a False
        by (cases requestBody) (simp_all add: PATCH_def errorResponse_def)
    qed
  qed
qed

theorem oversized_attributes_rejected_before_remote_call_witness:
  "(\<exists>e. handleSaveMetadata (\<lambda>h r. ResponseOk) [exampleFile] (Some exampleFile)
            (JSON_stringify seventeenKeys)
          = Some \<lparr>newFiles = [exampleFile], newEditingFile = Some exampleFile,
                   shownToast = Some (ToastError e), sentRequests = []\<rparr>
        \<and> (e = TooManyKeys \<or> e = KeyTooLong))
   \<and> (\<exists>message. PATCH (\<lambda>c. Inr JNull)
            (Some (JObj [(''attributes'', seventeenKeys), (''vectorStoreId'', JStr ''vs_1'')]))
            ''file-1''
          = (\<lparr>status = 400, body = ErrorBody message\<rparr>, []))"
proof -
  let ?kvs = "map (\<lambda>i. (showDigits (int i), JNull)) [0..<17]"
  have h: "length ?kvs > 16 \<or> list_ex (\<lambda>kv. length (fst kv) > 256) ?kvs"
    by simp
  have p: "JSON_parse (JSON_stringify seventeenKeys) = Inr (JObj ?kvs)"
    by code_simp
  have g: "getProp (JObj [(''attributes'', seventeenKeys), (''vectorStoreId'', JStr ''vs_1'')])
             ''attributes'' = Some (JObj ?kvs)"
    by (simp add: seventeenKeys_def)
  from oversized_attributes_rejected_before_remote_call[OF h,
      of "JSON_stringify seventeenKeys" "\<lambda>h r. ResponseOk" "[exampleFile]" exampleFile
         "JObj [(''attributes'', seventeenKeys), (''vectorStoreId'', JStr ''vs_1'')]"
         "\<lambda>c. Inr JNull" "''file-1''"]
  show ?thesis using p g by blast
qed


section \<open>Properties of the import parse stage\<close>

subsection \<open>Header validation\<close>

text \<open>
  A header line with at least two columns is accepted exactly when its first column
  lower-cased is \<open>file name\<close> and its second column lower-cased contains \<open>attributes\<close>,
  and is otherwise refused with \<open>InvalidFormat\<close>.
\<close>

lemma checkHeaders_two_columns:
  "checkHeaders (h0 # h1 # hs) =
     (if toLowerCase h0 = ''file name'' \<and> includes_str (toLowerCase h1) ''attributes''
      then Inr () else Inl InvalidFormat)"
  by (simp add: checkHeaders_def)

lemma checkHeaders_examples:
  "checkHeaders (parseCSVLine ''File Name,Attributes'') = Inr ()"
  "checkHeaders (parseCSVLine ''Name,Meta'') = Inl InvalidFormat"
  by code_simp+

text \<open>
  C4, the failing input. A header line whose only column is \<open>File Name\<close> has no second
  column; the import does not end with \<open>InvalidFormat\<close> but with the \<open>TypeError\<close> of
  reading \<open>toLowerCase\<close> of the missing \<open>headers[1]\<close>, which the summary then shows.
\<close>

theorem header_without_second_column_is_type_error:
  "checkHeaders (parseCSVLine ''File Name'') = Inl UndefinedTypeError
   \<and> parseStage (''File Name'' @ [LF] @ ''report,{}'') = Inl UndefinedTypeError
   \<and> handleImportFiles (\<lambda>h r. ResponseOk) [exampleFile] (''File Name'' @ [LF] @ ''report,{}'')
       = Some (abortedSummary UndefinedTypeError, [])"
  by code_simp


subsection \<open>Schema violations abort the import\<close>

lemma filter_nonempty_iff_list_ex:
  "(filter P xs = []) = (\<not> list_ex P xs)"
  by (induction xs) auto

lemma validateMetadata_violation:
  assumes "violatesSchema a"
  shows "\<exists>e. validateMetadata a rowName = Inl e \<and> (isObject a \<longrightarrow> isSchemaViolation e)"
proof (cases "isObject a")
  case False
  then show ?thesis by (simp add: validateMetadata_def)
next
  case True
  show ?thesis
  proof (cases "list_ex (\<lambda>field. \<not> hasField a field) requiredFields")
    case missing: True
    then show ?thesis
      using True by (simp add: validateMetadata_def Let_def filter_nonempty_iff_list_ex)
  next
    case present: False
    show ?thesis
    proof (cases "isNumber (getProp a ''year'')")
      case False
      then show ?thesis
        using True present
        by (simp add: validateMetadata_def Let_def filter_nonempty_iff_list_ex)
    next
      case year: True
      with assms present have "\<not> isValidStatus (getProp a ''status'')"
        by (simp add: violatesSchema_def)
      then show ?thesis
        using True present year
        by (simp add: validateMetadata_def Let_def filter_nonempty_iff_list_ex)
    qed
  qed
qed

lemma validateMetadata_accepts:
  "isObject a \<Longrightarrow> \<not> violatesSchema a \<Longrightarrow> validateMetadata a rowName = Inr ()"
  by (simp add: validateMetadata_def violatesSchema_def Let_def filter_nonempty_iff_list_ex)

text \<open>The row loop stops at the first row that throws.\<close>

lemma processRows_append:
  "processRows (pre @ rest) updates =
     (case processRows pre updates of Inl e \<Rightarrow> Inl e | Inr ups \<Rightarrow> processRows rest ups)"
proof (induction pre arbitrary: updates)
  case Nil
  show ?case by simp
next
  case (Cons line pre)
  show ?case
    by (simp add: Cons.IH Let_def split: sum.splits json_failure.splits)
qed

lemma processRows_throwing_row:
  assumes "trim line \<noteq> []"
    and "\<not> startsWith line ''Instructions:''"
    and "parseCSVLine line = nameCell # attributesCell # cells"
    and "trim (stripEdgeQuotes nameCell) \<noteq> []"
    and "JSON_parse (cleanAttributes attributesCell) = Inr decoded"
    and "validateMetadata decoded (trim (stripEdgeQuotes nameCell)) = Inl e"
  shows "processRows (line # post) updates = Inl (InvalidRow (trim (stripEdgeQuotes nameCell)) e)"
  using assms by (simp add: Let_def)

text \<open>
  For a data row whose attributes cell decodes to an object or an array that violates
  the schema (all rows before it having been accepted), the whole import aborts with
  one of \<open>validateMetadata\<close>'s own errors: the summary shown has no succeeded and no
  notFound row and the one entry "Import Process" in errors, and no remote update call
  has been issued for any row, the accepted rows before the offending one included.
  For a decoded value that is not an object the import aborts in the same way, with
  the \<open>TypeError\<close> of the \<open>in\<close> operator.
\<close>

lemma schema_violation_aborts_import:
  assumes "filter (\<lambda>line. trim line \<noteq> []) (splitLines fileText) = header # pre @ line # post"
    and "checkHeaders (parseCSVLine header) = Inr ()"
    and "processRows pre [] = Inr earlier"
    and "\<not> startsWith line ''Instructions:''"
    and "parseCSVLine line = nameCell # attributesCell # cells"
    and "trim (stripEdgeQuotes nameCell) \<noteq> []"
    and "JSON_parse (cleanAttributes attributesCell) = Inr decoded"
    and "violatesSchema decoded"
  shows "\<exists>e. (if isObject decoded then isSchemaViolation e else e = InOperatorTypeError)
      \<and> parseStage fileText = Inl (InvalidRow (trim (stripEdgeQuotes nameCell)) e)
      \<and> handleImportFiles fetch filesState fileText
          = Some (\<lparr>showSummary = True,
                   success = \<lparr>count = 0, files = []\<rparr>,
                   errors = \<lparr>count = 1,
                             files = [(''Import Process'',
                                       ImportAborted
                                         (InvalidRow (trim (stripEdgeQuotes nameCell)) e))]\<rparr>,
                   notFound = \<lparr>count = 0, files = []\<rparr>\<rparr>, [])"
proof -
  from validateMetadata_violation[OF assms(8), of "trim (stripEdgeQuotes nameCell)"]
  obtain e where e: "validateMetadata decoded (trim (stripEdgeQuotes nameCell)) = Inl e"
    and sv: "isObject decoded \<longrightarrow> isSchemaViolation e"
    by blast
  have te: "\<not> isObject decoded \<longrightarrow> e = InOperatorTypeError"
    using e by (auto simp add: validateMetadata_def)
  have "line \<in> set (filter (\<lambda>line. trim line \<noteq> []) (splitLines fileText))"
    using assms(1) by simp
  then have nonblank: "trim line \<noteq> []"
    by simp
  have row: "processRows (line # post) earlier
      = Inl (InvalidRow (trim (stripEdgeQuotes nameCell)) e)"
    using processRows_throwing_row[OF nonblank assms(4) assms(5) assms(6) assms(7) e] .
  have rows: "processRows (pre @ line # post) []
      = Inl (InvalidRow (trim (stripEdgeQuotes nameCell)) e)"
    using assms(3) row by (simp add: processRows_append)
  have stage: "parseStage fileText = Inl (InvalidRow (trim (stripEdgeQuotes nameCell)) e)"
    using assms(1) assms(2) rows by (simp add: parseStage_def)
  have "handleImportFiles fetch filesState fileText
          = Some (\<lparr>showSummary = True,
                   success = \<lparr>count = 0, files = []\<rparr>,
                   errors = \<lparr>count = 1,
                             files = [(''Import Process'',
                                       ImportAborted
                                         (InvalidRow (trim (stripEdgeQuotes nameCell)) e))]\<rparr>,
                   notFound = \<lparr>count = 0, files = []\<rparr>\<rparr>, [])"
    using stage by (simp add: handleImportFiles_def)
  with sv te stage show ?thesis by (cases "isObject decoded") auto
qed

text \<open>
  The import file \<open>exampleBadCsv\<close>, whose second data row lacks \<open>status\<close>: the import
  aborts with "missing required fields: status" and sends nothing, although the first
  row is valid and matches a file.
\<close>

lemma schema_violation_aborts_import_example:
  "parseStage exampleBadCsv = Inl (InvalidRow ''other'' (MissingFields [''status'']))
   \<and> handleImportFiles (\<lambda>h r. ResponseOk) [exampleFile] exampleBadCsv
       = Some (\<lparr>showSummary = True,
                success = \<lparr>count = 0, files = []\<rparr>,
                errors = \<lparr>count = 1,
                          files = [(''Import Process'',
                                    ImportAborted
                                      (InvalidRow ''other'' (MissingFields [''status''])))]\<rparr>,
                notFound = \<lparr>count = 0, files = []\<rparr>\<rparr>, [])"
proof -
  have stage: "parseStage exampleBadCsv = Inl (InvalidRow ''other'' (MissingFields [''status'']))"
    by code_simp
  then show ?thesis
    by (simp add: handleImportFiles_def)
qed

text \<open>
  C1. The import file \<open>numberRowCsv\<close> has the header and the one data row \<open>report,5\<close>.
  The decoded attributes of that row, the number 5, violate the schema: every required
  key is missing. The import aborts and no remote update call is issued, but the error
  is not a SchemaViolation: \<open>field in attributes\<close>, the first step of
  \<open>validateMetadata\<close>, throws a \<open>TypeError\<close> on a value that is not an object, before any
  of the three checks of the schema is made.
\<close>

theorem non_object_attributes_abort_with_type_error:
  "filter (\<lambda>line. trim line \<noteq> []) (splitLines numberRowCsv)
     = [''File Name,Attributes'', ''report,5'']
   \<and> parseCSVLine ''report,5'' = [''report'', ''5'']
   \<and> JSON_parse (cleanAttributes ''5'') = Inr (JNum (Finite 5))
   \<and> violatesSchema (JNum (Finite 5))
   \<and> validateMetadata (JNum (Finite 5)) ''report'' = Inl InOperatorTypeError
   \<and> \<not> isSchemaViolation InOperatorTypeError
   \<and> parseStage numberRowCsv = Inl (InvalidRow ''report'' InOperatorTypeError)
   \<and> handleImportFiles fetch filesState numberRowCsv
       = Some (\<lparr>showSummary = True,
                success = \<lparr>count = 0, files = []\<rparr>,
                errors = \<lparr>count = 1,
                          files = [(''Import Process'',
                                    ImportAborted
                                      (InvalidRow ''report'' InOperatorTypeError))]\<rparr>,
                notFound = \<lparr>count = 0, files = []\<rparr>\<rparr>, [])"
proof -
  have a: "filter (\<lambda>line. trim line \<noteq> []) (splitLines numberRowCsv)
     = [''File Name,Attributes'', ''report,5'']"
    by code_simp
  have b: "parseCSVLine ''report,5'' = [''report'', ''5'']"
    by code_simp
  have c: "JSON_parse (cleanAttributes ''5'') = Inr (JNum (Finite 5))"
    by code_simp
  have d: "violatesSchema (JNum (Finite 5))"
    by code_simp
  have e: "validateMetadata (JNum (Finite 5)) ''report'' = Inl InOperatorTypeError"
    by (simp add: validateMetadata_def)
  have f: "\<not> isSchemaViolation InOperatorTypeError"
    by simp
  have stage: "parseStage numberRowCsv = Inl (InvalidRow ''report'' InOperatorTypeError)"
    by code_simp
  have g: "handleImportFiles fetch filesState numberRowCsv
       = Some (\<lparr>showSummary = True,
                success = \<lparr>count = 0, files = []\<rparr>,
                errors = \<lparr>count = 1,
                          files = [(''Import Process'',
                                    ImportAborted
                                      (InvalidRow ''report'' InOperatorTypeError))]\<rparr>,
                notFound = \<lparr>count = 0, files = []\<rparr>\<rparr>, [])"
    using stage by (simp add: handleImportFiles_def)
  show ?thesis
    by (intro conjI a b c d e f stage g)
qed

theorem non_object_attributes_abort_with_type_error_witness:
  "violatesSchema (JNum (Finite 5))
   \<and> parseStage numberRowCsv = Inl (InvalidRow ''report'' InOperatorTypeError)
   \<and> handleImportFiles (\<lambda>h r. ResponseOk) [exampleFile] numberRowCsv
       = Some (\<lparr>showSummary = True,
                success = \<lparr>count = 0, files = []\<rparr>,
                errors = \<lparr>count = 1,
                          files = [(''Import Process'',
                                    ImportAborted
                                      (InvalidRow ''report'' InOperatorTypeError))]\<rparr>,
                notFound = \<lparr>count = 0, files = []\<rparr>\<rparr>, [])"
  using non_object_attributes_abort_with_type_error[of "\<lambda>h r. ResponseOk" "[exampleFile]"]
  by simp

section \<open>Properties of CSV export\<close>

lemma exportRow_valid:
  assumes "validTimestamp (created_at file)"
  shows "\<exists>isoDate. toISOString (created_at file * 1000) = Inr isoDate
      \<and> exportRow file =
          Inr [exportName file, id' file, Number_toString (Finite (of_int (bytes file))), isoDate, purpose file,
               vectorStoreId file, JSON_stringify (File.attributes file)]"
proof -
  obtain y m d where "civilFromDays (created_at file * 1000 div 86400000) = (y, m, d)"
    by (metis prod_cases3)
  with assms obtain isoDate where "toISOString (created_at file * 1000) = Inr isoDate"
    by (simp add: validTimestamp_def toISOString_def Let_def)
  then show ?thesis
    by (simp add: exportRow_def exportName_def)
qed

lemma exportRows_valid:
  assumes "\<forall>file \<in> set filesState. validTimestamp (created_at file)"
  shows "\<exists>rows. exportRows filesState csvRows = Inr (csvRows @ rows)
      \<and> length rows = length filesState
      \<and> (\<forall>i < length filesState. exportRow (filesState ! i) = Inr (rows ! i))"
  using assms
proof (induction filesState arbitrary: csvRows)
  case Nil
  show ?case by simp
next
  case (Cons f rest)
  from Cons.prems have "validTimestamp (created_at f)"
    by simp
  from exportRow_valid[OF this] obtain row where row: "exportRow f = Inr row"
    by blast
  from Cons.prems have "\<forall>file \<in> set rest. validTimestamp (created_at file)"
    by simp
  from Cons.IH[OF this, of "csvRows @ [row]"] obtain rows where
    rows: "exportRows rest ((csvRows @ [row])) = Inr ((csvRows @ [row]) @ rows)"
      "length rows = length rest"
      "\<forall>i < length rest. exportRow (rest ! i) = Inr (rows ! i)"
    by blast
  have "\<forall>i < length (f # rest). exportRow ((f # rest) ! i) = Inr ((row # rows) ! i)"
  proof (intro allI impI)
    fix i assume "i < length (f # rest)"
    then show "exportRow ((f # rest) ! i) = Inr ((row # rows) ! i)"
      using row rows(3) by (cases i) simp_all
  qed
  then show ?case
    using row rows(1,2) by (intro exI[of _ "row # rows"]) simp
qed

lemma csvCell_doubles_quotes:
  "csvCell cell =
     [DQUOTE] @ concat (map (\<lambda>c. if c = DQUOTE then [DQUOTE, DQUOTE] else [c]) cell) @ [DQUOTE]"
proof -
  have "doubleQuotes cell = concat (map (\<lambda>c. if c = DQUOTE then [DQUOTE, DQUOTE] else [c]) cell)"
    by (induction cell) auto
  then show ?thesis
    by (simp add: csvCell_def)
qed

text \<open>
  C7, counterexample. A file list is not always exported: for a record whose
  \<open>created_at\<close> is \<open>8640000000001\<close> seconds the date is invalid, \<open>toISOString\<close> throws
  a \<open>RangeError\<close> and the handler produces no CSV text.
\<close>

theorem export_invalid_date_counterexample:
  "handleExportFiles [exampleFile\<lparr>created_at := 8640000000001\<rparr>] = Inl RangeError"
  by code_simp

text \<open>
  C7, amended. For every file list whose \<open>created_at\<close> values are valid dates, CSV export
  produces the text made of the fixed header row followed by exactly one row per record
  in list order, rows joined by LF and cells by commas. The row of a record holds its
  name, id, size (\<open>file.bytes.toString()\<close>), creation date in ISO format, purpose, vector store id and its
  attributes serialized as a JSON string. Every cell of every row is written with each
  double quote doubled and the whole wrapped in double quotes.
\<close>

theorem export_csv_layout:
  assumes "\<forall>file \<in> set filesState. validTimestamp (created_at file)"
  shows "\<exists>rows.
      handleExportFiles filesState =
        Inr (join [LF] (map (\<lambda>row. join '','' (map csvCell row))
               ([''File Name'', ''File ID'', ''Size (bytes)'', ''Created At'', ''Purpose'',
                 ''Vector Store ID'', ''Attributes''] # rows)))
    \<and> length rows = length filesState
    \<and> (\<forall>i < length filesState.
          \<exists>isoDate. toISOString (created_at (filesState ! i) * 1000) = Inr isoDate
            \<and> rows ! i =
                [if filename (filesState ! i) \<noteq> [] then filename (filesState ! i)
                 else name (filesState ! i),
                 id' (filesState ! i),
                 Number_toString (Finite (of_int (bytes (filesState ! i)))),
                 isoDate,
                 purpose (filesState ! i),
                 vectorStoreId (filesState ! i),
                 JSON_stringify (File.attributes (filesState ! i))])
    \<and> (\<forall>cell. csvCell cell =
          [DQUOTE] @ concat (map (\<lambda>c. if c = DQUOTE then [DQUOTE, DQUOTE] else [c]) cell)
          @ [DQUOTE])"
proof -
  from exportRows_valid[OF assms, of "[exportHeaders]"] obtain rows where
    rows: "exportRows filesState [exportHeaders] = Inr ([exportHeaders] @ rows)"
      "length rows = length filesState"
      "\<forall>i < length filesState. exportRow (filesState ! i) = Inr (rows ! i)"
    by blast
  have out: "handleExportFiles filesState =
        Inr (join [LF] (map (\<lambda>row. join '','' (map csvCell row))
               ([''File Name'', ''File ID'', ''Size (bytes)'', ''Created At'', ''Purpose'',
                 ''Vector Store ID'', ''Attributes''] # rows)))"
    using rows(1) by (simp add: handleExportFiles_def csvContent_def exportHeaders_def)
  have each: "\<forall>i < length filesState.
          \<exists>isoDate. toISOString (created_at (filesState ! i) * 1000) = Inr isoDate
            \<and> rows ! i =
                [if filename (filesState ! i) \<noteq> [] then filename (filesState ! i)
                 else name (filesState ! i),
                 id' (filesState ! i),
                 Number_toString (Finite (of_int (bytes (filesState ! i)))),
                 isoDate,
                 purpose (filesState ! i),
                 vectorStoreId (filesState ! i),
                 JSON_stringify (File.attributes (filesState ! i))]"
  proof (intro allI impI)
    fix i assume i: "i < length filesState"
    then have "validTimestamp (created_at (filesState ! i))"
      using assms by simp
    from exportRow_valid[OF this] rows(3) i
    show "\<exists>isoDate. toISOString (created_at (filesState ! i) * 1000) = Inr isoDate
            \<and> rows ! i =
                [if filename (filesState ! i) \<noteq> [] then filename (filesState ! i)
                 else name (filesState ! i),
                 id' (filesState ! i),
                 Number_toString (Finite (of_int (bytes (filesState ! i)))),
                 isoDate,
                 purpose (filesState ! i),
                 vectorStoreId (filesState ! i),
                 JSON_stringify (File.attributes (filesState ! i))]"
      by (auto simp add: exportName_def)
  qed
  show ?thesis
    using out rows(2) each csvCell_doubles_quotes by blast
qed

theorem export_csv_layout_witness:
  "\<exists>rows.
      handleExportFiles [exampleFile] =
        Inr (join [LF] (map (\<lambda>row. join '','' (map csvCell row))
               ([''File Name'', ''File ID'', ''Size (bytes)'', ''Created At'', ''Purpose'',
                 ''Vector Store ID'', ''Attributes''] # rows)))
    \<and> length rows = length [exampleFile]
    \<and> rows ! 0 =
         [''report.pdf'', ''file-1'', ''10'', ''2023-11-14T22:13:20.000Z'', ''assistants'',
          ''vs_1'', JSON_stringify exampleAttributes]"
proof -
  have h: "\<forall>file \<in> set [exampleFile]. validTimestamp (created_at file)"
    by code_simp
  from export_csv_layout[OF h] obtain rows where
    a: "handleExportFiles [exampleFile] =
        Inr (join [LF] (map (\<lambda>row. join '','' (map csvCell row))
               ([''File Name'', ''File ID'', ''Size (bytes)'', ''Created At'', ''Purpose'',
                 ''Vector Store ID'', ''Attributes''] # rows)))"
    and b: "length rows = length [exampleFile]"
    and c: "\<forall>i < length [exampleFile].
          \<exists>isoDate. toISOString (created_at ([exampleFile] ! i) * 1000) = Inr isoDate
            \<and> rows ! i =
                [if filename ([exampleFile] ! i) \<noteq> [] then filename ([exampleFile] ! i)
                 else name ([exampleFile] ! i),
                 id' ([exampleFile] ! i),
                 Number_toString (Finite (of_int (bytes ([exampleFile] ! i)))),
                 isoDate,
                 purpose ([exampleFile] ! i),
                 vectorStoreId ([exampleFile] ! i),
                 JSON_stringify (File.attributes ([exampleFile] ! i))]"
    by blast
  have t: "toISOString (created_at exampleFile * 1000) = Inr ''2023-11-14T22:13:20.000Z''"
    by code_simp
  have s: "Number_toString (Finite (of_int (bytes exampleFile))) = ''10''"
    by code_simp
  from c t s have "rows ! 0 =
         [''report.pdf'', ''file-1'', ''10'', ''2023-11-14T22:13:20.000Z'', ''assistants'',
          ''vs_1'', JSON_stringify exampleAttributes]"
    by (auto simp add: exampleFile_def)
  with a b show ?thesis by blast
qed


section \<open>The export-import round trip\<close>

subsection \<open>Line splitting and trimming\<close>

lemma trim_id:
  "s \<noteq> [] \<Longrightarrow> \<not> isWhiteSpace (hd s) \<Longrightarrow> \<not> isWhiteSpace (last s) \<Longrightarrow> trim s = s"
proof -
  assume a: "s \<noteq> []" "\<not> isWhiteSpace (hd s)" "\<not> isWhiteSpace (last s)"
  then have 1: "dropWhile isWhiteSpace s = s"
    by (cases s) auto
  from a have "rev s \<noteq> []" "\<not> isWhiteSpace (hd (rev s))"
    by (simp_all add: hd_rev)
  then have 2: "dropWhile isWhiteSpace (rev s) = rev s"
    by (cases "rev s") auto
  show ?thesis by (simp add: trim_def 1 2)
qed

declare split_loop.simps(2) [simp del]

lemma split_loop_LF:
  "split_loop (LF # rest) cur = cur # split_loop rest []"
  by (simp add: split_loop.simps(2))

lemma split_loop_char:
  "c \<noteq> LF \<Longrightarrow> c \<noteq> CR \<or> rest = [] \<or> hd rest \<noteq> LF \<Longrightarrow>
   split_loop (c # rest) cur = split_loop rest (cur @ [c])"
  by (cases rest) (auto simp add: split_loop.simps(2))

lemma split_loop_line:
  "LF \<notin> set l \<Longrightarrow> l = [] \<or> last l \<noteq> CR \<Longrightarrow>
   split_loop (l @ LF # rest) cur = (cur @ l) # split_loop rest []"
proof (induction l arbitrary: cur)
  case Nil
  show ?case by (simp add: split_loop_LF)
next
  case (Cons c l)
  have "c \<noteq> CR \<or> hd (l @ LF # rest) \<noteq> LF"
    using Cons.prems by (cases l) auto
  then have "split_loop (c # l @ LF # rest) cur = split_loop (l @ LF # rest) (cur @ [c])"
    using Cons.prems by (intro split_loop_char) auto
  moreover have "l = [] \<or> last l \<noteq> CR"
    using Cons.prems by (cases l) auto
  ultimately show ?case
    using Cons.IH[of "cur @ [c]"] Cons.prems by simp
qed

lemma split_loop_last:
  "LF \<notin> set l \<Longrightarrow> split_loop l cur = [cur @ l]"
proof (induction l arbitrary: cur)
  case Nil
  show ?case by simp
next
  case (Cons c l)
  have "l = [] \<or> hd l \<noteq> LF"
    using Cons.prems by (cases l) auto
  then have "split_loop (c # l) cur = split_loop l (cur @ [c])"
    using Cons.prems by (intro split_loop_char) auto
  then show ?case
    using Cons.IH[of "cur @ [c]"] Cons.prems by simp
qed

lemma splitLines_join:
  "ls \<noteq> [] \<Longrightarrow> \<forall>l \<in> set ls. LF \<notin> set l \<and> (l = [] \<or> last l \<noteq> CR) \<Longrightarrow>
   splitLines (join [LF] ls) = ls"
proof -
  have "ls \<noteq> [] \<Longrightarrow> \<forall>l \<in> set ls. LF \<notin> set l \<and> (l = [] \<or> last l \<noteq> CR) \<Longrightarrow>
      split_loop (join [LF] ls) [] = ls"
  proof (induction ls)
    case Nil
    then show ?case by simp
  next
    case (Cons l ls)
    show ?case
    proof (cases ls)
      case Nil
      with Cons.prems show ?thesis by (simp add: split_loop_last)
    next
      case (Cons m ms)
      with Cons.prems Cons.IH show ?thesis
        using split_loop_line[of l "join [LF] ls" "[]"] by simp
    qed
  qed
  then show "ls \<noteq> [] \<Longrightarrow> \<forall>l \<in> set ls. LF \<notin> set l \<and> (l = [] \<or> last l \<noteq> CR) \<Longrightarrow>
   splitLines (join [LF] ls) = ls"
    by (simp add: splitLines_def)
qed


subsection \<open>\<open>JSON.parse\<close> inverts \<open>JSON.stringify\<close> on plain values\<close>

lemma escapeChar_plain: "plainChar c \<Longrightarrow> escapeChar c = [c]"
  by (auto simp add: plainChar_def escapeChar_def Let_def)

lemma quoteJSON_plain: "plainString s \<Longrightarrow> quoteJSON s = DQUOTE # s @ [DQUOTE]"
proof -
  assume "plainString s"
  then have "concat (map escapeChar s) = s"
    by (induction s) (simp_all add: plainString_def escapeChar_plain)
  then show ?thesis by (simp add: quoteJSON_def)
qed

lemma parseChars_plain:
  "plainString s \<Longrightarrow> parseChars (s @ DQUOTE # r) acc = Inr (acc @ s, r)"
proof (induction s arbitrary: acc)
  case Nil
  show ?case by simp
next
  case (Cons c s)
  then have c: "c \<noteq> DQUOTE" "c \<noteq> BACKSLASH" "\<not> (of_char c :: nat) < 32" and s: "plainString s"
    by (simp_all add: plainString_def plainChar_def)
  show ?case
    using c Cons.IH[OF s, of "acc @ [c]"] by simp
qed

lemma skipWs_Cons: "\<not> isJsonWs c \<Longrightarrow> skipWs (c # s) = c # s"
  by (simp add: skipWs_def)

lemma skipWs_stops: "stops r \<Longrightarrow> skipWs r = r"
  by (cases r) (auto simp add: stops_def skipWs_def isJsonWs_def)

lemma notWs_structural:
  "\<not> isJsonWs (CHR ''['')" "\<not> isJsonWs (CHR '']'')" "\<not> isJsonWs (CHR ''{'')"
  "\<not> isJsonWs (CHR ''}'')" "\<not> isJsonWs (CHR '','')" "\<not> isJsonWs (CHR '':'')"
  "\<not> isJsonWs DQUOTE" "\<not> isJsonWs (CHR ''n'')" "\<not> isJsonWs (CHR ''t'')"
  "\<not> isJsonWs (CHR ''f'')"
  by (simp_all add: isJsonWs_def)

lemma digit_not_structural:
  assumes "isDigit c \<or> c = CHR ''-''"
  shows "c \<noteq> CHR ''{''" "c \<noteq> CHR ''[''" "c \<noteq> DQUOTE" "\<not> isJsonWs c"
    "c \<noteq> CHR '']''" "c \<noteq> CHR ''}''"
  using assms by (auto simp add: isDigit_def isJsonWs_def)

lemma parseValue_array_empty:
  "parseValue (Suc n) (CHR ''['' # CHR '']'' # r) = Inr (JArr [], r)"
  by (simp add: skipWs_Cons notWs_structural)

lemma parseValue_array_elements:
  "\<not> isJsonWs c \<Longrightarrow> c \<noteq> CHR '']'' \<Longrightarrow>
   parseValue (Suc n) (CHR ''['' # c # s) = parseElements n (c # s) []"
  by (simp add: skipWs_Cons notWs_structural)

lemma parseValue_object_empty:
  "parseValue (Suc n) (CHR ''{'' # CHR ''}'' # r) = Inr (JObj [], r)"
  by (simp add: skipWs_Cons notWs_structural)

lemma parseValue_object_members:
  "\<not> isJsonWs c \<Longrightarrow> c \<noteq> CHR ''}'' \<Longrightarrow>
   parseValue (Suc n) (CHR ''{'' # c # s) = parseMembers n (c # s) []"
  by (simp add: skipWs_Cons notWs_structural)

lemma parseValue_string:
  "parseValue (Suc n) (DQUOTE # s) =
     (case parseChars s [] of Inl e \<Rightarrow> Inl e | Inr (str, r') \<Rightarrow> Inr (JStr str, r'))"
  by (simp add: skipWs_Cons notWs_structural)

lemma parseValue_number:
  assumes "isDigit c \<or> c = CHR ''-''"
  shows "parseValue (Suc n) (c # s) =
     (case parseNumber (c # s) of Inl e \<Rightarrow> Inl e | Inr (i, r') \<Rightarrow> Inr (JNum i, r'))"
proof -
  from assms have cond: "(c = CHR ''-'' \<or> isDigit c) = True"
    by blast
  show ?thesis
    using digit_not_structural[OF assms] by (simp add: skipWs_Cons cond)
qed

lemma parseValue_null: "parseValue (Suc n) (''null'' @ r) = Inr (JNull, r)"
  by (simp add: skipWs_Cons notWs_structural isDigit_def startsWith_def)

lemma parseValue_true: "parseValue (Suc n) (''true'' @ r) = Inr (JBool True, r)"
  by (simp add: skipWs_Cons notWs_structural isDigit_def startsWith_def)

lemma parseValue_false: "parseValue (Suc n) (''false'' @ r) = Inr (JBool False, r)"
  by (simp add: skipWs_Cons notWs_structural isDigit_def startsWith_def)

lemma parseElements_comma:
  "parseValue n s = Inr (v, CHR '','' # r') \<Longrightarrow>
   parseElements (Suc n) s acc = parseElements n r' (acc @ [v])"
  by (simp add: skipWs_Cons notWs_structural)

lemma parseElements_close:
  "parseValue n s = Inr (v, CHR '']'' # r') \<Longrightarrow>
   parseElements (Suc n) s acc = Inr (JArr (acc @ [v]), r')"
  by (simp add: skipWs_Cons notWs_structural)

lemma parseMembers_comma:
  "parseChars s [] = Inr (k, CHR '':'' # s2) \<Longrightarrow>
   parseValue n s2 = Inr (v, CHR '','' # r') \<Longrightarrow>
   parseMembers (Suc n) (DQUOTE # s) acc = parseMembers n r' (objSet acc k v)"
  by (simp add: skipWs_Cons notWs_structural)

lemma parseMembers_close:
  "parseChars s [] = Inr (k, CHR '':'' # s2) \<Longrightarrow>
   parseValue n s2 = Inr (v, CHR ''}'' # r') \<Longrightarrow>
   parseMembers (Suc n) (DQUOTE # s) acc = Inr (JObj (objSet acc k v), r')"
  by (simp add: skipWs_Cons notWs_structural)

declare parseValue.simps [simp del] parseElements.simps [simp del] parseMembers.simps [simp del]

lemma stringify_head:
  "\<exists>c s. JSON_stringify v = c # s \<and> \<not> isJsonWs c \<and> c \<noteq> CHR '']'' \<and> c \<noteq> CHR ''}''"
proof (cases v)
  case (JNum x)
  show ?thesis
  proof (cases x)
    case (Finite q)
    from numberText_head[of q] obtain c s where
      cs: "Number_toString (Finite q) = c # s" and c: "isDigit c \<or> c = CHR ''-''"
      by blast
    from digit_not_structural[OF c] have "\<not> isJsonWs c \<and> c \<noteq> CHR '']'' \<and> c \<noteq> CHR ''}''"
      by blast
    with cs JNum Finite show ?thesis by simp
  qed (simp_all add: JNum notWs_structural)
qed (auto simp add: isJsonWs_def quoteJSON_def)

lemma stops_simps:
  "stops (CHR '','' # r)" "stops (CHR '']'' # r)" "stops (CHR ''}'' # r)" "stops []"
  by (simp_all add: stops_def)

lemma join_Cons2: "ys \<noteq> [] \<Longrightarrow> join sep (x # ys) = x @ sep @ join sep ys"
  by (cases ys) simp_all

lemma parseElements_stringify:
  assumes IH: "\<And>x n r. x \<in> set xs \<Longrightarrow> plainJson x \<Longrightarrow> length (JSON_stringify x) \<le> n \<Longrightarrow>
                 stops r \<Longrightarrow> parseValue n (JSON_stringify x @ r) = Inr (x, r)"
  shows "ys \<noteq> [] \<Longrightarrow> set ys \<subseteq> set xs \<Longrightarrow> \<forall>x \<in> set ys. plainJson x \<Longrightarrow>
     length (join '','' (map JSON_stringify ys)) < n \<Longrightarrow>
     parseElements n (join '','' (map JSON_stringify ys) @ CHR '']'' # r) acc
       = Inr (JArr (acc @ ys), r)"
proof (induction ys arbitrary: n acc)
  case Nil
  then show ?case by simp
next
  case (Cons y ys)
  from Cons.prems(4) obtain m where n: "n = Suc m"
    by (cases n) auto
  show ?case
  proof (cases "ys = []")
    case True
    have "parseValue m (JSON_stringify y @ CHR '']'' # r) = Inr (y, CHR '']'' # r)"
      using Cons.prems True n by (intro IH) (auto simp add: stops_simps)
    then show ?thesis
      using True n parseElements_close[of m "JSON_stringify y @ CHR '']'' # r" y r acc]
      by simp
  next
    case False
    let ?rest = "join '','' (map JSON_stringify ys) @ CHR '']'' # r"
    have j: "join '','' (map JSON_stringify (y # ys))
        = JSON_stringify y @ '','' @ join '','' (map JSON_stringify ys)"
      using False by (simp add: join_Cons2)
    have "parseValue m (JSON_stringify y @ CHR '','' # ?rest) = Inr (y, CHR '','' # ?rest)"
      using Cons.prems n j by (intro IH) (auto simp add: stops_simps)
    then have "parseElements n (JSON_stringify y @ CHR '','' # ?rest) acc
        = parseElements m ?rest (acc @ [y])"
      using n parseElements_comma[of m "JSON_stringify y @ CHR '','' # ?rest" y ?rest acc]
      by simp
    moreover have "parseElements m ?rest (acc @ [y]) = Inr (JArr ((acc @ [y]) @ ys), r)"
      using Cons.prems False n j by (intro Cons.IH) auto
    ultimately show ?thesis
      using j by simp
  qed
qed

lemma objSet_fresh: "k \<notin> set (map fst acc) \<Longrightarrow> objSet acc k v = acc @ [(k, v)]"
  by (simp add: objSet_def)

lemma parseMembers_stringify:
  assumes IH: "\<And>kv n r. kv \<in> set kvs \<Longrightarrow> plainJson (snd kv) \<Longrightarrow>
                 length (JSON_stringify (snd kv)) \<le> n \<Longrightarrow> stops r \<Longrightarrow>
                 parseValue n (JSON_stringify (snd kv) @ r) = Inr (snd kv, r)"
  shows "ms \<noteq> [] \<Longrightarrow> set ms \<subseteq> set kvs \<Longrightarrow>
     \<forall>kv \<in> set ms. plainString (fst kv) \<and> plainJson (snd kv) \<Longrightarrow>
     distinct (map fst (acc @ ms)) \<Longrightarrow>
     length (join '','' (map (\<lambda>kv. quoteJSON (fst kv) @ '':'' @ JSON_stringify (snd kv)) ms)) < n \<Longrightarrow>
     parseMembers n
       (join '','' (map (\<lambda>kv. quoteJSON (fst kv) @ '':'' @ JSON_stringify (snd kv)) ms)
        @ CHR ''}'' # r) acc
       = Inr (JObj (acc @ ms), r)"
proof (induction ms arbitrary: n acc)
  case Nil
  then show ?case by simp
next
  case (Cons kv ms)
  let ?member = "\<lambda>kv. quoteJSON (fst kv) @ '':'' @ JSON_stringify (snd kv)"
  obtain k v where kv: "kv = (k, v)" by (cases kv)
  from Cons.prems(5) obtain m where n: "n = Suc m"
    by (cases n) auto
  have pk: "plainString k" and pv: "plainJson v"
    using Cons.prems(3) kv by simp_all
  have fresh: "k \<notin> set (map fst acc)"
    using Cons.prems(4) kv by auto
  have mem: "?member kv = DQUOTE # k @ DQUOTE # CHR '':'' # JSON_stringify v"
    using kv pk by (simp add: quoteJSON_plain)
  show ?case
  proof (cases "ms = []")
    case True
    have len: "length (JSON_stringify v) \<le> m"
      using Cons.prems(5) True n kv by simp
    have key: "parseChars (k @ DQUOTE # CHR '':'' # JSON_stringify v @ CHR ''}'' # r) []
        = Inr (k, CHR '':'' # JSON_stringify v @ CHR ''}'' # r)"
      using parseChars_plain[OF pk, of "CHR '':'' # JSON_stringify v @ CHR ''}'' # r" "[]"] by simp
    have val: "parseValue m (JSON_stringify v @ CHR ''}'' # r) = Inr (v, CHR ''}'' # r)"
      using IH[of kv m "CHR ''}'' # r"] Cons.prems(2) kv pv len by (simp add: stops_simps)
    show ?thesis
      using True n mem kv fresh parseMembers_close[OF key val, of acc]
      by (simp add: objSet_fresh)
  next
    case False
    let ?rest = "join '','' (map ?member ms) @ CHR ''}'' # r"
    have j: "join '','' (map ?member (kv # ms)) = ?member kv @ '','' @ join '','' (map ?member ms)"
      using False by (simp add: join_Cons2)
    have len: "length (JSON_stringify v) \<le> m"
      and len': "length (join '','' (map ?member ms)) < m"
      using Cons.prems(5) n kv j by simp_all
    have key: "parseChars (k @ DQUOTE # CHR '':'' # JSON_stringify v @ CHR '','' # ?rest) []
        = Inr (k, CHR '':'' # JSON_stringify v @ CHR '','' # ?rest)"
      using parseChars_plain[OF pk, of "CHR '':'' # JSON_stringify v @ CHR '','' # ?rest" "[]"]
      by simp
    have val: "parseValue m (JSON_stringify v @ CHR '','' # ?rest) = Inr (v, CHR '','' # ?rest)"
      using IH[of kv m "CHR '','' # ?rest"] Cons.prems(2) kv pv len by (simp add: stops_simps)
    have step: "parseMembers n (join '','' (map ?member (kv # ms)) @ CHR ''}'' # r) acc
        = parseMembers m ?rest (acc @ [kv])"
      using n mem j kv fresh parseMembers_comma[OF key val, of acc]
      by (simp add: objSet_fresh)
    have "parseMembers m ?rest (acc @ [kv]) = Inr (JObj ((acc @ [kv]) @ ms), r)"
      using Cons.prems False len' by (intro Cons.IH) auto
    with step show ?thesis by simp
  qed
qed

lemma parseValue_stringify:
  "plainJson v \<Longrightarrow> length (JSON_stringify v) \<le> n \<Longrightarrow> stops r \<Longrightarrow>
   parseValue n (JSON_stringify v @ r) = Inr (v, r)"
proof (induction v arbitrary: n r)
  case JNull
  then obtain m where "n = Suc m" by (cases n) auto
  then show ?case using parseValue_null[of m r] by simp
next
  case (JBool b)
  then obtain m where "n = Suc m" by (cases n) (auto split: if_splits)
  then show ?case using parseValue_true[of m r] parseValue_false[of m r] by simp
next
  case (JNum x)
  from JNum.prems(1) obtain q where x: "x = Finite q" and q: "isDouble q"
    by (cases x) simp_all
  from numberText_head[of q] obtain c s where
    cs: "Number_toString (Finite q) = c # s" and c: "isDigit c \<or> c = CHR ''-''"
    by blast
  from JNum.prems(2) cs x obtain m where n: "n = Suc m" by (cases n) auto
  from parseValue_number[OF c, of m "s @ r"]
  have "parseValue n (Number_toString (Finite q) @ r) =
      (case parseNumber (Number_toString (Finite q) @ r) of
         Inl e \<Rightarrow> Inl e | Inr (j, r') \<Rightarrow> Inr (JNum j, r'))"
    using n cs by simp
  moreover have "parseNumber (Number_toString (Finite q) @ r) = Inr (Finite q, r)"
    using q JNum.prems(3) by (rule parseNumber_toString)
  ultimately show ?case using x by simp
next
  case (JStr s)
  then have ps: "plainString s" by simp
  from JStr.prems(2) obtain m where n: "n = Suc m"
    by (cases n) (auto simp add: quoteJSON_def)
  show ?case
    using n parseValue_string[of m "s @ DQUOTE # r"] parseChars_plain[OF ps, of r "[]"]
    by (simp add: quoteJSON_plain[OF ps])
next
  case (JArr xs)
  from JArr.prems(2) obtain m where n: "n = Suc m" by (cases n) auto
  show ?case
  proof (cases "xs = []")
    case True
    then show ?thesis using n parseValue_array_empty[of m r] by simp
  next
    case False
    let ?body = "join '','' (map JSON_stringify xs)"
    obtain x xs' where xs: "xs = x # xs'" using False by (cases xs) auto
    from stringify_head[of x] obtain c s where
      hd: "JSON_stringify x = c # s" "\<not> isJsonWs c" "c \<noteq> CHR '']''"
      by blast
    obtain t where body: "?body = c # t"
      using xs hd(1) by (cases xs') simp_all
    have len: "length ?body < m"
      using JArr.prems(2) n by simp
    have elems: "parseElements m (?body @ CHR '']'' # r) [] = Inr (JArr ([] @ xs), r)"
      using False JArr.prems(1) len
      by (intro parseElements_stringify[where xs = xs]) (auto intro: JArr.IH)
    have "parseValue n (CHR ''['' # c # (t @ CHR '']'' # r)) = parseElements m (c # (t @ CHR '']'' # r)) []"
      using n parseValue_array_elements[OF hd(2) hd(3), of m "t @ CHR '']'' # r"] by simp
    then show ?thesis
      using elems body by simp
  qed
next
  case (JObj kvs)
  from JObj.prems(2) obtain m where n: "n = Suc m" by (cases n) auto
  let ?member = "\<lambda>kv. quoteJSON (fst kv) @ '':'' @ JSON_stringify (snd kv)"
  show ?case
  proof (cases "kvs = []")
    case True
    then show ?thesis using n parseValue_object_empty[of m r] by simp
  next
    case False
    let ?body = "join '','' (map ?member kvs)"
    obtain kv kvs' where kvs: "kvs = kv # kvs'" using False by (cases kvs) auto
    obtain t where body: "?body = DQUOTE # t"
      using kvs by (cases kvs') (simp_all add: quoteJSON_def)
    have len: "length ?body < m"
      using JObj.prems(2) n by simp
    have IH: "\<And>kv n r. kv \<in> set kvs \<Longrightarrow> plainJson (snd kv) \<Longrightarrow>
                 length (JSON_stringify (snd kv)) \<le> n \<Longrightarrow> stops r \<Longrightarrow>
                 parseValue n (JSON_stringify (snd kv) @ r) = Inr (snd kv, r)"
    proof -
      fix kv n r
      assume a: "kv \<in> set kvs" "plainJson (snd kv)" "length (JSON_stringify (snd kv)) \<le> n" "stops r"
      have "snd kv \<in> Basic_BNFs.snds kv"
        by (cases kv) (simp add: snds.simps)
      from JObj.IH[OF a(1) this a(2) a(3) a(4)]
      show "parseValue n (JSON_stringify (snd kv) @ r) = Inr (snd kv, r)" .
    qed
    have members: "parseMembers m (?body @ CHR ''}'' # r) [] = Inr (JObj ([] @ kvs), r)"
      using False JObj.prems(1) len
      by (intro parseMembers_stringify[where kvs = kvs]) (auto intro: IH)
    have "parseValue n (CHR ''{'' # DQUOTE # (t @ CHR ''}'' # r))
        = parseMembers m (DQUOTE # (t @ CHR ''}'' # r)) []"
      using n parseValue_object_members[of DQUOTE m "t @ CHR ''}'' # r"]
      by (simp add: notWs_structural)
    then show ?thesis
      using members body by simp
  qed
qed

lemma JSON_parse_stringify: "plainJson v \<Longrightarrow> JSON_parse (JSON_stringify v) = Inr v"
  using parseValue_stringify[of v "2 * length (JSON_stringify v) + 2" "[]"]
  by (simp add: JSON_parse_def stops_simps skipWs_def)

subsection \<open>The text of plain values passes the line splitter and the clean-up\<close>

lemma set_join_subset: "set (join sep xs) \<subseteq> set sep \<union> (\<Union>x \<in> set xs. set x)"
  by (induction sep xs rule: join.induct) auto

lemma quiet_plainChar: "plainChar c \<Longrightarrow> quietChar c"
proof -
  assume p: "plainChar c"
  have "\<not> plainChar BACKSLASH" "\<not> plainChar LF" by (simp_all add: plainChar_def)
  with p show "quietChar c" unfolding quietChar_def by metis
qed

lemma quiet_quoteJSON:
  assumes "plainString s"
  shows "\<forall>c \<in> set (quoteJSON s). quietChar c"
proof -
  have "\<forall>c \<in> set s. quietChar c"
    using assms quiet_plainChar by (simp add: plainString_def list_all_iff)
  moreover have "quietChar DQUOTE" by (simp add: quietChar_def)
  ultimately show ?thesis
    by (simp add: quoteJSON_plain[OF assms])
qed


lemma quiet_structural:
  "quietChar (CHR '','')" "quietChar (CHR '':'')" "quietChar (CHR ''['')" "quietChar (CHR '']'')"
  "quietChar (CHR ''{'')" "quietChar (CHR ''}'')" "quietChar (CHR ''-'')"
  "\<forall>c \<in> set ''null''. quietChar c" "\<forall>c \<in> set ''true''. quietChar c"
  "\<forall>c \<in> set ''false''. quietChar c"
  by (simp_all add: quietChar_def)

lemma quiet_join:
  assumes "\<forall>c \<in> set sep. quietChar c" and "\<forall>x \<in> set xs. \<forall>c \<in> set x. quietChar c"
  shows "\<forall>c \<in> set (join sep xs). quietChar c"
proof
  fix c assume "c \<in> set (join sep xs)"
  then have "c \<in> set sep \<union> (\<Union>x \<in> set xs. set x)"
    using set_join_subset by blast
  then show "quietChar c" using assms by blast
qed

lemma quiet_stringify: "plainJson v \<Longrightarrow> \<forall>c \<in> set (JSON_stringify v). quietChar c"
proof (induction v)
  case JNull
  show ?case using quiet_structural by simp
next
  case (JBool b)
  show ?case using quiet_structural by simp
next
  case (JNum x)
  then obtain q where "x = Finite q" by (cases x) simp_all
  then show ?case using quiet_numberText by simp
next
  case (JStr s)
  then show ?case using quiet_quoteJSON by simp
next
  case (JArr xs)
  have "\<forall>x \<in> set (map JSON_stringify xs). \<forall>c \<in> set x. quietChar c"
    using JArr by simp
  then have "\<forall>c \<in> set (join '','' (map JSON_stringify xs)). quietChar c"
    by (intro quiet_join) (simp_all add: quiet_structural)
  then show ?case by (simp add: quiet_structural)
next
  case (JObj kvs)
  let ?member = "\<lambda>kv. quoteJSON (fst kv) @ '':'' @ JSON_stringify (snd kv)"
  have each: "\<forall>x \<in> set (map ?member kvs). \<forall>c \<in> set x. quietChar c"
  proof
    fix x assume "x \<in> set (map ?member kvs)"
    then obtain kv where kv: "kv \<in> set kvs" and x: "x = ?member kv" by auto
    have "snd kv \<in> Basic_BNFs.snds kv" by (cases kv) (simp add: snds.simps)
    from JObj.IH[OF kv this] JObj.prems kv
    have v: "\<forall>c \<in> set (JSON_stringify (snd kv)). quietChar c" by simp
    have k: "\<forall>c \<in> set (quoteJSON (fst kv)). quietChar c"
      using JObj.prems kv by (intro quiet_quoteJSON) simp
    show "\<forall>c \<in> set x. quietChar c"
      using k v x by (simp add: quiet_structural ball_Un)
  qed
  then have "\<forall>c \<in> set (join '','' (map ?member kvs)). quietChar c"
    by (intro quiet_join) (simp_all add: quiet_structural)
  then show ?case by (simp add: quiet_structural)
qed

lemma violatesSchema_not_object: "\<not> violatesSchema a \<Longrightarrow> \<exists>kvs. a = JObj kvs"
  by (cases a) (simp_all add: violatesSchema_def requiredFields_def)

lemma unescapeQuotes_id: "BACKSLASH \<notin> set s \<Longrightarrow> unescapeQuotes s = s"
  by (induction s rule: unescapeQuotes.induct) auto

lemma removeBackslashes_id: "BACKSLASH \<notin> set s \<Longrightarrow> removeBackslashes s = s"
  by (induction s) (auto simp add: removeBackslashes_def)

lemma stripEdgeQuotes_id: "s \<noteq> [] \<Longrightarrow> hd s \<noteq> DQUOTE \<Longrightarrow> last s \<noteq> DQUOTE \<Longrightarrow> stripEdgeQuotes s = s"
  by (cases s) (auto simp add: stripEdgeQuotes_def)

lemma cleanAttributes_object:
  assumes "plainJson (JObj kvs)"
  shows "cleanAttributes (JSON_stringify (JObj kvs)) = JSON_stringify (JObj kvs)"
    and "trim (JSON_stringify (JObj kvs)) = JSON_stringify (JObj kvs)"
proof -
  let ?j = "JSON_stringify (JObj kvs)"
  have ne: "?j \<noteq> []" and h: "hd ?j = CHR ''{''" and l: "last ?j = CHR ''}''"
    by simp_all
  have nb: "BACKSLASH \<notin> set ?j"
    using quiet_stringify[OF assms] by (auto simp add: quietChar_def)
  have t: "trim ?j = ?j"
    using ne h l by (intro trim_id) (simp_all add: isWhiteSpace_def)
  have s: "stripEdgeQuotes ?j = ?j"
    using ne h l by (intro stripEdgeQuotes_id) simp_all
  show "trim ?j = ?j" by (rule t)
  show "cleanAttributes ?j = ?j"
    unfolding cleanAttributes_def Let_def
    by (simp only: s t unescapeQuotes_id[OF nb] removeBackslashes_id[OF nb])
qed

subsection \<open>Re-importing the remapped export\<close>

lemma set_doubleQuotes: "set (doubleQuotes s) \<subseteq> insert DQUOTE (set s)"
  by (induction s) auto

lemma csvCell_shape:
  "csvCell s \<noteq> []" "hd (csvCell s) = DQUOTE" "last (csvCell s) = DQUOTE"
  by (simp_all add: csvCell_def)

lemma csvCell_no_LF: "LF \<notin> set s \<Longrightarrow> LF \<notin> set (csvCell s)"
  using set_doubleQuotes[of s] by (auto simp add: csvCell_def)

lemma two_cell_line_shape:
  assumes "LF \<notin> set a" "LF \<notin> set b"
  shows "join '','' (map csvCell [a, b]) \<noteq> []"
    and "hd (join '','' (map csvCell [a, b])) = DQUOTE"
    and "last (join '','' (map csvCell [a, b])) = DQUOTE"
    and "LF \<notin> set (join '','' (map csvCell [a, b]))"
    and "trim (join '','' (map csvCell [a, b])) = join '','' (map csvCell [a, b])"
    and "\<not> startsWith (join '','' (map csvCell [a, b])) ''Instructions:''"
    and "parseCSVLine (join '','' (map csvCell [a, b])) = [trim a, trim b]"
proof -
  let ?l = "join '','' (map csvCell [a, b])"
  have eq: "?l = csvCell a @ CHR '','' # csvCell b" by simp
  show ne: "?l \<noteq> []" by (simp add: csvCell_shape)
  show h: "hd ?l = DQUOTE" by (simp add: csvCell_shape)
  show l: "last ?l = DQUOTE" by (simp add: csvCell_shape)
  show "LF \<notin> set ?l" using csvCell_no_LF[OF assms(1)] csvCell_no_LF[OF assms(2)] by simp
  show "trim ?l = ?l"
    using ne by (intro trim_id) (simp_all only: h l, simp_all add: isWhiteSpace_def)
  obtain t where "?l = DQUOTE # t" using ne h by (cases ?l) auto
  then show "\<not> startsWith ?l ''Instructions:''"
    by (simp add: startsWith_def)
  show "parseCSVLine ?l = [trim a, trim b]"
    using parseCSVLine_fields[of "[Quoted a, Quoted b]"] by simp
qed

lemma processRows_remapped_row:
  assumes "importable file"
  shows "processRows (remappedLine file # rest) updates
      = processRows rest (updates @ [importedRow file])"
proof -
  let ?a = "exportName file" and ?j = "JSON_stringify (File.attributes file)"
  from assms have noLF: "LF \<notin> set ?a" and name: "importedName ?a \<noteq> []"
    and plain: "plainJson (File.attributes file)"
    and schema: "\<not> violatesSchema (File.attributes file)"
    by (simp_all add: importable_def)
  from violatesSchema_not_object[OF schema] obtain kvs where obj: "File.attributes file = JObj kvs"
    by blast
  have jLF: "LF \<notin> set ?j"
    using quiet_stringify[OF plain] by (auto simp add: quietChar_def)
  note shape = two_cell_line_shape[OF noLF jLF]
  have tj: "trim ?j = ?j" and cj: "cleanAttributes ?j = ?j"
    using cleanAttributes_object[of kvs] plain obj by simp_all
  have parse: "JSON_parse ?j = Inr (File.attributes file)"
    using plain by (rule JSON_parse_stringify)
  have valid: "validateMetadata (File.attributes file) (importedName ?a) = Inr ()"
    using schema obj by (intro validateMetadata_accepts) simp_all
  have nonblank: "trim (remappedLine file) \<noteq> []"
    using shape(1) shape(5) by (simp add: remappedLine_def)
  show ?thesis
    using nonblank shape(6) shape(7) name tj cj parse valid
    by (simp add: remappedLine_def importedRow_def importedName_def Let_def)
qed

lemma processRows_remapped:
  "\<forall>file \<in> set filesState. importable file \<Longrightarrow>
   processRows (map remappedLine filesState) updates
     = Inr (updates @ map importedRow filesState)"
proof (induction filesState arbitrary: updates)
  case Nil
  show ?case by simp
next
  case (Cons f rest)
  then show ?case
    by (simp add: processRows_remapped_row del: processRows.simps)
qed

lemma remapRow_exported:
  assumes "validTimestamp (created_at file)" and "exportRow file = Inr row"
  shows "remapRow row = [exportName file, JSON_stringify (File.attributes file)]"
  using exportRow_valid[OF assms(1)] assms(2) by (auto simp add: remapRow_def)

lemma remapped_header:
  "remapRow exportHeaders = [''File Name'', ''Attributes'']"
  by (simp add: remapRow_def exportHeaders_def)

lemma header_line_accepted:
  "checkHeaders (parseCSVLine (join '','' (map csvCell [''File Name'', ''Attributes'']))) = Inr ()"
  by code_simp

lemma remapExport_lines:
  assumes "\<forall>file \<in> set filesState. importable file"
    and "exportRows filesState [exportHeaders] = Inr csvRows"
  shows "remapExport csvRows =
      join [LF] (join '','' (map csvCell [''File Name'', ''Attributes''])
                 # map remappedLine filesState)"
proof -
  have valid: "\<forall>file \<in> set filesState. validTimestamp (created_at file)"
    using assms(1) by (simp add: importable_def)
  from exportRows_valid[OF valid, of "[exportHeaders]"] assms(2) obtain rows where
    rows: "csvRows = exportHeaders # rows" "length rows = length filesState"
      "\<forall>i < length filesState. exportRow (filesState ! i) = Inr (rows ! i)"
    by auto
  have "map remapRow rows
      = map (\<lambda>file. [exportName file, JSON_stringify (File.attributes file)]) filesState"
  proof (rule nth_equalityI)
    show "length (map remapRow rows)
        = length (map (\<lambda>file. [exportName file, JSON_stringify (File.attributes file)]) filesState)"
      using rows(2) by simp
  next
    fix i assume "i < length (map remapRow rows)"
    then have i: "i < length filesState" using rows(2) by simp
    then have "validTimestamp (created_at (filesState ! i))" using valid by simp
    from remapRow_exported[OF this] rows(3) i
    have "remapRow (rows ! i)
        = [exportName (filesState ! i), JSON_stringify (File.attributes (filesState ! i))]"
      by simp
    then show "map remapRow rows ! i
        = map (\<lambda>file. [exportName file, JSON_stringify (File.attributes file)]) filesState ! i"
      using i rows(2) by simp
  qed
  then show ?thesis
    using rows(1)
    by (simp add: remapExport_def csvContent_def remapped_header remappedLine_def[abs_def]
        comp_def)
qed

lemma remapped_lines_split:
  assumes "\<forall>file \<in> set filesState. importable file"
  shows "filter (\<lambda>line. trim line \<noteq> [])
           (splitLines (join [LF] (join '','' (map csvCell [''File Name'', ''Attributes''])
                                   # map remappedLine filesState)))
      = join '','' (map csvCell [''File Name'', ''Attributes'']) # map remappedLine filesState"
proof -
  let ?header = "join '','' (map csvCell [''File Name'', ''Attributes''])"
  let ?ls = "?header # map remappedLine filesState"
  have each: "\<forall>l \<in> set ?ls. l \<noteq> [] \<and> last l = DQUOTE \<and> LF \<notin> set l \<and> trim l = l"
  proof
    fix l assume "l \<in> set ?ls"
    then consider "l = ?header" | f where "f \<in> set filesState" "l = remappedLine f"
      by auto
    then show "l \<noteq> [] \<and> last l = DQUOTE \<and> LF \<notin> set l \<and> trim l = l"
    proof cases
      case 1
      have "LF \<notin> set ''File Name''" "LF \<notin> set ''Attributes''" by simp_all
      note shape = two_cell_line_shape[OF this]
      show ?thesis
        unfolding 1 using shape(1) shape(3) shape(4) shape(5) by (intro conjI)
    next
      case 2
      from assms 2(1) have "LF \<notin> set (exportName f)"
        and "plainJson (File.attributes f)"
        by (simp_all add: importable_def)
      moreover from this(2) have "LF \<notin> set (JSON_stringify (File.attributes f))"
        using quiet_stringify by (auto simp add: quietChar_def)
      ultimately have noLF: "LF \<notin> set (exportName f)"
          "LF \<notin> set (JSON_stringify (File.attributes f))"
        by simp_all
      note shape = two_cell_line_shape[OF noLF]
      show ?thesis
        unfolding 2(2) remappedLine_def using shape(1) shape(3) shape(4) shape(5)
        by (intro conjI)
    qed
  qed
  then have "\<forall>l \<in> set ?ls. LF \<notin> set l \<and> (l = [] \<or> last l \<noteq> CR)"
    by auto
  then have "splitLines (join [LF] ?ls) = ?ls"
    by (intro splitLines_join) simp_all
  moreover have "filter (\<lambda>line. trim line \<noteq> []) ?ls = ?ls"
    using each by (intro filter_True) auto
  ultimately show ?thesis by simp
qed

text \<open>
  C2, counterexample. The export of a list holding one record with the empty attribute
  map (what the list route delivers for a file without attributes) is refused on
  re-import: the remapped text fails the parse stage with the missing-fields error.
  And a record whose attributes satisfy the schema but hold a line feed in \<open>title\<close>
  is accepted with a different attribute map: \<open>JSON.stringify\<close> writes the line feed as
  backslash-n, the clean-up of the cell removes the backslash, and the title \<open>a\<close>,
  line feed, \<open>b\<close> comes back as \<open>anb\<close>. A record whose attributes hold an infinity is
  accepted with a different attribute map as well: \<open>JSON.stringify\<close> writes the infinity
  as \<open>null\<close>. And the export of the empty file list, the header row alone, is refused
  for want of a data row.
\<close>

theorem export_import_round_trip_counterexample:
  "exportRows [exampleFile\<lparr>File.attributes := JObj []\<rparr>] [exportHeaders]
     = Inr [exportHeaders,
            [''report.pdf'', ''file-1'', ''10'', ''2023-11-14T22:13:20.000Z'', ''assistants'',
             ''vs_1'', ''{}'']]
   \<and> parseStage (remapExport
         [exportHeaders,
          [''report.pdf'', ''file-1'', ''10'', ''2023-11-14T22:13:20.000Z'', ''assistants'',
           ''vs_1'', ''{}'']])
       = Inl (InvalidRow ''report.pdf'' (MissingFields requiredFields))
   \<and> exportRows [exampleFile\<lparr>File.attributes := newlineAttributes\<rparr>] [exportHeaders]
     = Inr [exportHeaders,
            [''report.pdf'', ''file-1'', ''10'', ''2023-11-14T22:13:20.000Z'', ''assistants'',
             ''vs_1'', JSON_stringify newlineAttributes]]
   \<and> parseStage (remapExport
         [exportHeaders,
          [''report.pdf'', ''file-1'', ''10'', ''2023-11-14T22:13:20.000Z'', ''assistants'',
           ''vs_1'', JSON_stringify newlineAttributes]])
       = Inr [\<lparr>fileName = ''report.pdf'', attributes = alteredAttributes\<rparr>]
   \<and> alteredAttributes \<noteq> newlineAttributes
   \<and> exportRows [exampleFile\<lparr>File.attributes := infiniteAttributes\<rparr>] [exportHeaders]
     = Inr [exportHeaders,
            [''report.pdf'', ''file-1'', ''10'', ''2023-11-14T22:13:20.000Z'', ''assistants'',
             ''vs_1'', JSON_stringify nulledAttributes]]
   \<and> parseStage (remapExport
         [exportHeaders,
          [''report.pdf'', ''file-1'', ''10'', ''2023-11-14T22:13:20.000Z'', ''assistants'',
           ''vs_1'', JSON_stringify nulledAttributes]])
       = Inr [\<lparr>fileName = ''report.pdf'', attributes = nulledAttributes\<rparr>]
   \<and> nulledAttributes \<noteq> infiniteAttributes
   \<and> exportRows [] [exportHeaders] = Inr [exportHeaders]
   \<and> parseStage (remapExport [exportHeaders]) = Inl NoValidRows"
proof (intro conjI)
  show "exportRows [exampleFile\<lparr>File.attributes := JObj []\<rparr>] [exportHeaders]
     = Inr [exportHeaders,
            [''report.pdf'', ''file-1'', ''10'', ''2023-11-14T22:13:20.000Z'', ''assistants'',
             ''vs_1'', ''{}'']]"
    by code_simp
  show "parseStage (remapExport
         [exportHeaders,
          [''report.pdf'', ''file-1'', ''10'', ''2023-11-14T22:13:20.000Z'', ''assistants'',
           ''vs_1'', ''{}'']])
       = Inl (InvalidRow ''report.pdf'' (MissingFields requiredFields))"
    by code_simp
  show "exportRows [exampleFile\<lparr>File.attributes := newlineAttributes\<rparr>] [exportHeaders]
     = Inr [exportHeaders,
            [''report.pdf'', ''file-1'', ''10'', ''2023-11-14T22:13:20.000Z'', ''assistants'',
             ''vs_1'', JSON_stringify newlineAttributes]]"
    by code_simp
  show "parseStage (remapExport
         [exportHeaders,
          [''report.pdf'', ''file-1'', ''10'', ''2023-11-14T22:13:20.000Z'', ''assistants'',
           ''vs_1'', JSON_stringify newlineAttributes]])
       = Inr [\<lparr>fileName = ''report.pdf'', attributes = alteredAttributes\<rparr>]"
    by code_simp
  show "alteredAttributes \<noteq> newlineAttributes"
    by code_simp
  show "exportRows [exampleFile\<lparr>File.attributes := infiniteAttributes\<rparr>] [exportHeaders]
     = Inr [exportHeaders,
            [''report.pdf'', ''file-1'', ''10'', ''2023-11-14T22:13:20.000Z'', ''assistants'',
             ''vs_1'', JSON_stringify nulledAttributes]]"
    by code_simp
  show "parseStage (remapExport
         [exportHeaders,
          [''report.pdf'', ''file-1'', ''10'', ''2023-11-14T22:13:20.000Z'', ''assistants'',
           ''vs_1'', JSON_stringify nulledAttributes]])
       = Inr [\<lparr>fileName = ''report.pdf'', attributes = nulledAttributes\<rparr>]"
    by code_simp
  show "nulledAttributes \<noteq> infiniteAttributes"
    by code_simp
  show "exportRows [] [exportHeaders] = Inr [exportHeaders]"
    by simp
  show "parseStage (remapExport [exportHeaders]) = Inl NoValidRows"
    by code_simp
qed

text \<open>
  C2, amended. For every non-empty file list in which every record has a valid date, an
  exported name (\<open>filename\<close>, or \<open>name\<close> when \<open>filename\<close> is empty) that holds no line
  feed and is not read as empty by the importer, and attributes that satisfy the import
  schema and are plain (no string in them, keys included, holds a double quote, a
  backslash or a control character, and no number in them is infinite): CSV export
  succeeds, and re-importing the exported rows, remapped to the
  two columns File Name and Attributes, is accepted by the import parser and yields one
  row per record, in list order, whose attribute map equals the record's attributes
  and whose file name is the exported name as the importer reads it.
\<close>

theorem export_import_round_trip:
  assumes "filesState \<noteq> []"
    and "\<forall>file \<in> set filesState. importable file"
  shows "\<exists>csvRows updates.
      exportRows filesState [exportHeaders] = Inr csvRows
    \<and> handleExportFiles filesState = Inr (csvContent csvRows)
    \<and> parseStage (remapExport csvRows) = Inr updates
    \<and> map ImportRow.attributes updates = map File.attributes filesState
    \<and> map fileName updates = map (\<lambda>file. importedName (exportName file)) filesState"
proof -
  have valid: "\<forall>file \<in> set filesState. validTimestamp (created_at file)"
    using assms(2) by (simp add: importable_def)
  from exportRows_valid[OF valid, of "[exportHeaders]"] obtain csvRows where
    rows: "exportRows filesState [exportHeaders] = Inr csvRows"
    by blast
  have export: "handleExportFiles filesState = Inr (csvContent csvRows)"
    using rows by (simp add: handleExportFiles_def)
  have lines: "filter (\<lambda>line. trim line \<noteq> []) (splitLines (remapExport csvRows))
      = join '','' (map csvCell [''File Name'', ''Attributes'']) # map remappedLine filesState"
    using remapExport_lines[OF assms(2) rows] remapped_lines_split[OF assms(2)] by simp
  have "processRows (map remappedLine filesState) [] = Inr ([] @ map importedRow filesState)"
    using assms(2) by (rule processRows_remapped)
  then have stage: "parseStage (remapExport csvRows) = Inr (map importedRow filesState)"
    using lines header_line_accepted assms(1) by (simp add: parseStage_def)
  have "map ImportRow.attributes (map importedRow filesState) = map File.attributes filesState"
    and "map fileName (map importedRow filesState)
          = map (\<lambda>file. importedName (exportName file)) filesState"
    by (simp_all add: importedRow_def comp_def)
  with rows export stage show ?thesis by blast
qed

theorem export_import_round_trip_witness:
  "\<exists>csvRows updates.
      exportRows [exampleFile, exampleFile\<lparr>File.attributes := fractionAttributes\<rparr>]
        [exportHeaders] = Inr csvRows
    \<and> handleExportFiles [exampleFile, exampleFile\<lparr>File.attributes := fractionAttributes\<rparr>]
        = Inr (csvContent csvRows)
    \<and> parseStage (remapExport csvRows) = Inr updates
    \<and> map ImportRow.attributes updates
        = map File.attributes [exampleFile, exampleFile\<lparr>File.attributes := fractionAttributes\<rparr>]
    \<and> map fileName updates
        = map (\<lambda>file. importedName (exportName file))
            [exampleFile, exampleFile\<lparr>File.attributes := fractionAttributes\<rparr>]"
proof -
  have h1: "[exampleFile, exampleFile\<lparr>File.attributes := fractionAttributes\<rparr>] \<noteq> []"
    by simp
  have "importable exampleFile"
    by code_simp
  moreover have "importable (exampleFile\<lparr>File.attributes := fractionAttributes\<rparr>)"
    by code_simp
  ultimately have h2:
    "\<forall>file \<in> set [exampleFile, exampleFile\<lparr>File.attributes := fractionAttributes\<rparr>].
       importable file"
    by simp
  show ?thesis
    by (rule export_import_round_trip[OF h1 h2])
qed

end
